theory Spec2Isabelle
  imports Complex_Main
begin

section \<open>JavaScript numbers and values\<close>

text \<open>
  The game computes with JavaScript numbers. A number is modelled as an exact real
  (\<open>Num\<close>) or one of the three special values \<open>Infinity\<close>, \<open>-Infinity\<close> and \<open>NaN\<close>.
  The rounding of IEEE doubles and the sign of zero are not modelled: arithmetic on
  \<open>Num\<close> is exact. The special values follow the language: \<open>NaN\<close> is absorbing,
  every comparison with \<open>NaN\<close> is false, \<open>Math.max\<close> and \<open>Math.min\<close> return \<open>NaN\<close>
  as soon as one argument is \<open>NaN\<close>.
\<close>

datatype jsnum = Num real | PInf | NInf | NaN

fun js_neg :: "jsnum \<Rightarrow> jsnum" where
  "js_neg (Num a) = Num (- a)"
| "js_neg PInf = NInf"
| "js_neg NInf = PInf"
| "js_neg NaN = NaN"

fun js_add :: "jsnum \<Rightarrow> jsnum \<Rightarrow> jsnum" where
  "js_add (Num a) (Num b) = Num (a + b)"
| "js_add NaN _ = NaN"
| "js_add _ NaN = NaN"
| "js_add PInf NInf = NaN"
| "js_add NInf PInf = NaN"
| "js_add PInf _ = PInf"
| "js_add _ PInf = PInf"
| "js_add NInf _ = NInf"
| "js_add _ NInf = NInf"

definition js_sub :: "jsnum \<Rightarrow> jsnum \<Rightarrow> jsnum" where
  "js_sub a b = js_add a (js_neg b)"

text \<open>The sign of a product with an infinite factor; zero times infinity is \<open>NaN\<close>.\<close>

definition inf_of_sign :: "real \<Rightarrow> jsnum" where
  "inf_of_sign s = (if s = 0 then NaN else if 0 < s then PInf else NInf)"

fun js_mul :: "jsnum \<Rightarrow> jsnum \<Rightarrow> jsnum" where
  "js_mul (Num a) (Num b) = Num (a * b)"
| "js_mul NaN _ = NaN"
| "js_mul _ NaN = NaN"
| "js_mul (Num a) PInf = inf_of_sign a"
| "js_mul (Num a) NInf = inf_of_sign (- a)"
| "js_mul PInf (Num b) = inf_of_sign b"
| "js_mul NInf (Num b) = inf_of_sign (- b)"
| "js_mul PInf PInf = PInf"
| "js_mul NInf NInf = PInf"
| "js_mul PInf NInf = NInf"
| "js_mul NInf PInf = NInf"

text \<open>Division; a zero divisor is taken as \<open>+0\<close>.\<close>

fun js_div :: "jsnum \<Rightarrow> jsnum \<Rightarrow> jsnum" where
  "js_div (Num a) (Num b) = (if b = 0 then inf_of_sign a else Num (a / b))"
| "js_div NaN _ = NaN"
| "js_div _ NaN = NaN"
| "js_div (Num a) PInf = Num 0"
| "js_div (Num a) NInf = Num 0"
| "js_div PInf (Num b) = (if 0 \<le> b then PInf else NInf)"
| "js_div NInf (Num b) = (if 0 \<le> b then NInf else PInf)"
| "js_div PInf _ = NaN"
| "js_div NInf _ = NaN"

fun js_floor :: "jsnum \<Rightarrow> jsnum" where
  "js_floor (Num a) = Num (of_int \<lfloor>a\<rfloor>)"
| "js_floor v = v"

fun js_lt :: "jsnum \<Rightarrow> jsnum \<Rightarrow> bool" where
  "js_lt (Num a) (Num b) = (a < b)"
| "js_lt NaN _ = False"
| "js_lt _ NaN = False"
| "js_lt _ NInf = False"
| "js_lt PInf _ = False"
| "js_lt NInf _ = True"
| "js_lt _ PInf = True"

definition js_gt :: "jsnum \<Rightarrow> jsnum \<Rightarrow> bool" where
  "js_gt a b = js_lt b a"

fun js_le :: "jsnum \<Rightarrow> jsnum \<Rightarrow> bool" where
  "js_le (Num a) (Num b) = (a \<le> b)"
| "js_le NaN _ = False"
| "js_le _ NaN = False"
| "js_le NInf _ = True"
| "js_le _ PInf = True"
| "js_le _ NInf = False"
| "js_le PInf _ = False"

definition js_ge :: "jsnum \<Rightarrow> jsnum \<Rightarrow> bool" where
  "js_ge a b = js_le b a"

definition js_max :: "jsnum \<Rightarrow> jsnum \<Rightarrow> jsnum" where
  "js_max a b = (if a = NaN \<or> b = NaN then NaN else if js_lt a b then b else a)"

definition js_min :: "jsnum \<Rightarrow> jsnum \<Rightarrow> jsnum" where
  "js_min a b = (if a = NaN \<or> b = NaN then NaN else if js_lt b a then b else a)"

text \<open>
  A value read from a property is a number or a function object. \<open>ToNumber\<close> of a
  function object is \<open>NaN\<close> (its source text is not a numeric literal).
\<close>

datatype jsval = JNumber jsnum | JFunction string | JUndefined

fun ToNumber :: "jsval \<Rightarrow> jsnum" where
  "ToNumber (JNumber n) = n"
| "ToNumber (JFunction f) = NaN"
| "ToNumber JUndefined = NaN"

section \<open>Game data (data.js)\<close>

definition MANA_PER_ATTACK :: jsnum where "MANA_PER_ATTACK = Num 10"
definition MANA_PER_DAMAGE_TAKEN :: jsnum where "MANA_PER_DAMAGE_TAKEN = Num 5"
definition MAX_MANA :: jsnum where "MAX_MANA = Num 100"
definition BOARD_COLS :: int where "BOARD_COLS = 8"
definition BOARD_ROWS :: int where "BOARD_ROWS = 8"
definition COMBAT_TICK_MS :: real where "COMBAT_TICK_MS = 100"

text \<open>
  An ability descriptor. A field the template leaves out is \<open>None\<close> (\<open>undefined\<close>, falsy);
  a numeric field that is present is falsy when it is \<open>0\<close> or \<open>NaN\<close>.
\<close>

record ability =
  ab_name :: string
  ab_damage :: "jsnum option"
  ab_manaCost :: "jsnum option"
  ab_stun :: "jsnum option"
  ab_slow :: "jsnum option"
  ab_duration :: "jsnum option"
  ab_aoe :: bool
  ab_damageMultiplier :: "jsnum option"
  ab_armorBonus :: "jsnum option"
  ab_attackBonus :: "jsnum option"
  ab_chainTargets :: "nat option"
  ab_hits :: "nat option"
  ab_teleport :: bool

definition truthy :: "jsnum option \<Rightarrow> bool" where
  "truthy v = (case v of None \<Rightarrow> False | Some n \<Rightarrow> n \<noteq> Num 0 \<and> n \<noteq> NaN)"

definition no_ability :: "string \<Rightarrow> ability" where
  "no_ability n = \<lparr> ab_name = n, ab_damage = None, ab_manaCost = None, ab_stun = None,
     ab_slow = None, ab_duration = None, ab_aoe = False, ab_damageMultiplier = None,
     ab_armorBonus = None, ab_attackBonus = None, ab_chainTargets = None, ab_hits = None,
     ab_teleport = False \<rparr>"

record template =
  t_name :: string
  t_cost :: nat
  t_hp :: real
  t_attack :: real
  t_attackSpeed :: real
  t_range :: real
  t_armor :: real
  t_magicResist :: real
  t_traits :: "string list"
  t_ability :: "ability option"

definition mk_template ::
  "string \<Rightarrow> nat \<Rightarrow> real \<Rightarrow> real \<Rightarrow> real \<Rightarrow> real \<Rightarrow> real \<Rightarrow> real \<Rightarrow> string list
     \<Rightarrow> ability option \<Rightarrow> template" where
  "mk_template n c h a s r ar mr ts ab = \<lparr> t_name = n, t_cost = c, t_hp = h, t_attack = a,
     t_attackSpeed = s, t_range = r, t_armor = ar, t_magicResist = mr, t_traits = ts,
     t_ability = ab \<rparr>"

definition UNITS :: "(string \<times> template) list" where
  "UNITS = [
    (''squire'', mk_template ''Squire'' 1 550 50 0.7 1 20 10 [''warrior''] None),
    (''apprentice'', mk_template ''Apprentice'' 1 400 40 0.6 3 10 20 [''mage'']
       (Some ((no_ability ''Arcane Bolt'')
          \<lparr> ab_damage := Some (Num 150), ab_manaCost := Some (Num 60) \<rparr>))),
    (''scout'', mk_template ''Scout'' 1 450 55 0.8 3 10 10 [''ranger''] None),
    (''cutthroat'', mk_template ''Cutthroat'' 1 480 60 0.9 1 10 10 [''assassin''] None),
    (''knight'', mk_template ''Knight'' 2 750 55 0.6 1 40 20 [''warrior'', ''tank'']
       (Some ((no_ability ''Shield Bash'')
          \<lparr> ab_damage := Some (Num 100), ab_manaCost := Some (Num 70),
            ab_stun := Some (Num 1) \<rparr>))),
    (''pyromancer'', mk_template ''Pyromancer'' 2 500 45 0.6 3 10 25 [''mage'', ''elemental'']
       (Some ((no_ability ''Fireball'')
          \<lparr> ab_damage := Some (Num 250), ab_manaCost := Some (Num 80), ab_aoe := True \<rparr>))),
    (''shadowBlade'', mk_template ''Shadow Blade'' 2 550 75 1.0 1 15 15 [''assassin'']
       (Some ((no_ability ''Backstab'')
          \<lparr> ab_manaCost := Some (Num 50), ab_damageMultiplier := Some (Num 2.5) \<rparr>))),
    (''marksman'', mk_template ''Marksman'' 2 520 70 0.85 4 10 10 [''ranger'']
       (Some ((no_ability ''Piercing Shot'')
          \<lparr> ab_damage := Some (Num 200), ab_manaCost := Some (Num 70) \<rparr>))),
    (''stoneGolem'', mk_template ''Stone Golem'' 2 900 45 0.4 1 50 30 [''tank'', ''elemental'']
       (Some ((no_ability ''Harden'')
          \<lparr> ab_manaCost := Some (Num 60), ab_duration := Some (Num 3),
            ab_armorBonus := Some (Num 50) \<rparr>))),
    (''warlord'', mk_template ''Warlord'' 3 900 80 0.7 1 45 25 [''warrior'', ''tank'']
       (Some ((no_ability ''War Cry'')
          \<lparr> ab_manaCost := Some (Num 90), ab_duration := Some (Num 4), ab_aoe := True,
            ab_attackBonus := Some (Num 30) \<rparr>))),
    (''archmage'', mk_template ''Archmage'' 3 600 50 0.55 4 10 40 [''mage'']
       (Some ((no_ability ''Meteor Strike'')
          \<lparr> ab_damage := Some (Num 400), ab_manaCost := Some (Num 100), ab_aoe := True \<rparr>))),
    (''phantomStriker'', mk_template ''Phantom Striker'' 3 650 95 1.1 1 20 30
       [''assassin'', ''elemental'']
       (Some ((no_ability ''Phase Strike'')
          \<lparr> ab_damage := Some (Num 300), ab_manaCost := Some (Num 70),
            ab_teleport := True \<rparr>))),
    (''stormArcher'', mk_template ''Storm Archer'' 3 620 85 0.9 4 15 25
       [''ranger'', ''elemental'']
       (Some ((no_ability ''Lightning Arrow'')
          \<lparr> ab_damage := Some (Num 250), ab_manaCost := Some (Num 80),
            ab_chainTargets := Some 3 \<rparr>))),
    (''frostGuardian'', mk_template ''Frost Guardian'' 3 1100 60 0.5 1 55 45
       [''tank'', ''elemental'', ''mage'']
       (Some ((no_ability ''Frost Nova'')
          \<lparr> ab_damage := Some (Num 150), ab_manaCost := Some (Num 85),
            ab_slow := Some (Num 0.3), ab_duration := Some (Num 3), ab_aoe := True \<rparr>))),
    (''bladeMaster'', mk_template ''Blade Master'' 3 800 90 0.85 1 30 20
       [''warrior'', ''assassin'']
       (Some ((no_ability ''Whirlwind'')
          \<lparr> ab_damage := Some (Num 200), ab_manaCost := Some (Num 75), ab_aoe := True,
            ab_hits := Some 3 \<rparr>)))
  ]"

text \<open>\<open>STAR_MULTIPLIERS\<close>: the same factor for hp and attack at every star level.\<close>

definition STAR_MULTIPLIERS :: "nat \<Rightarrow> real option" where
  "STAR_MULTIPLIERS s = (if s = 1 then Some 1.0 else if s = 2 then Some 1.8
     else if s = 3 then Some 3.2 else None)"

section \<open>The Unit class (unit.js)\<close>

datatype UnitState = IDLE | MOVING | ATTACKING | CASTING | DEAD

record buff_rec =
  attackBonus :: jsnum
  armorBonus :: jsnum
  magicResistBonus :: jsnum
  attackSpeedBonus :: jsnum
  hpBonus :: jsnum
  spellPower :: jsnum
  critChance :: jsnum
  critDamage :: jsnum
  damageReduction :: jsnum
  magicDamage :: jsnum
  manaRegen :: jsnum

record status_rec =
  stunned :: bool
  stunDuration :: jsnum
  slowed :: bool
  slowAmount :: jsnum
  slowDuration :: jsnum

text \<open>
  A unit object. \<open>target\<close> is a reference to another unit object: the address of that
  object in the store of the combat (see below). A position coordinate is \<open>null\<close>
  (\<open>None\<close>) or a grid index. \<open>unit_id n\<close> stands for the string \<open>unit_n\<close>.
\<close>

record unit =
  unit_id :: nat
  templateId :: string
  name :: string
  cost :: nat
  traits :: "string list"
  ability :: "ability option"
  starLevel :: nat
  maxHp :: jsnum
  baseAttack :: jsnum
  attackSpeed :: jsnum
  unit_range :: jsnum
  armor :: jsnum
  magicResist :: jsnum
  currentHp :: jsnum
  currentMana :: jsnum
  maxMana :: jsnum
  pos_x :: "int option"
  pos_y :: "int option"
  state :: UnitState
  target :: "nat option"
  attackCooldown :: jsnum
  buffs :: buff_rec
  statusEffects :: status_rec
  ownerId :: "string option"

definition zero_buffs :: buff_rec where
  "zero_buffs = \<lparr> attackBonus = Num 0, armorBonus = Num 0, magicResistBonus = Num 0,
     attackSpeedBonus = Num 0, hpBonus = Num 0, spellPower = Num 0, critChance = Num 0,
     critDamage = Num 0, damageReduction = Num 0, magicDamage = Num 0, manaRegen = Num 0 \<rparr>"

definition clear_status :: status_rec where
  "clear_status = \<lparr> stunned = False, stunDuration = Num 0, slowed = False,
     slowAmount = Num 0, slowDuration = Num 0 \<rparr>"

datatype error = UnknownTemplate string | InvalidStarLevel nat

text \<open>
  The constructor. It throws on an unknown template and on a star level outside 1..3;
  the new object takes the next id of the global counter \<open>nextUnitId\<close>, which the
  caller advances.
\<close>

definition new_Unit :: "string \<Rightarrow> nat \<Rightarrow> nat \<Rightarrow> error + unit" where
  "new_Unit tid star next_id =
     (case map_of UNITS tid of
        None \<Rightarrow> Inl (UnknownTemplate tid)
      | Some t \<Rightarrow>
          (case STAR_MULTIPLIERS star of
             None \<Rightarrow> Inl (InvalidStarLevel star)
           | Some m \<Rightarrow> Inr \<lparr>
               unit_id = next_id, templateId = tid, name = t_name t, cost = t_cost t,
               traits = t_traits t, ability = t_ability t, starLevel = star,
               maxHp = Num (of_int \<lfloor>t_hp t * m\<rfloor>),
               baseAttack = Num (of_int \<lfloor>t_attack t * m\<rfloor>),
               attackSpeed = Num (t_attackSpeed t), unit_range = Num (t_range t),
               armor = Num (t_armor t), magicResist = Num (t_magicResist t),
               currentHp = Num (of_int \<lfloor>t_hp t * m\<rfloor>), currentMana = Num 0,
               maxMana = MAX_MANA, pos_x = None, pos_y = None, state = IDLE, target = None,
               attackCooldown = Num 0, buffs = zero_buffs, statusEffects = clear_status,
               ownerId = None \<rparr>))"

subsection \<open>Computed properties\<close>

text \<open>
  The class body declares an accessor \<open>get attack()\<close> and, further down, a method
  \<open>attack()\<close>. The elements of a class body are defined on the prototype one after
  the other, and defining a property that exists replaces it: the prototype ends up
  with what the last element of each name says. The list gives the elements of the
  class body in source order.
\<close>

datatype class_element = Getter string | Method string

fun element_name :: "class_element \<Rightarrow> string" where
  "element_name (Getter n) = n"
| "element_name (Method n) = n"

definition Unit_class_body :: "class_element list" where
  "Unit_class_body = [
     Getter ''attack'', Getter ''effectiveArmor'', Getter ''effectiveMagicResist'',
     Getter ''effectiveAttackSpeed'', Getter ''effectiveMaxHp'', Getter ''isAlive'',
     Getter ''isOnBoard'', Getter ''canAct'', Getter ''hpPercent'', Getter ''manaPercent'',
     Method ''takeDamage'', Method ''heal'', Method ''gainMana'', Method ''attack'',
     Method ''findTarget'', Method ''move'', Method ''moveTowardsTarget'',
     Method ''setPosition'', Method ''removeFromBoard'', Method ''die'',
     Method ''resetForCombat'', Method ''applyStun'', Method ''applySlow'',
     Method ''updateStatusEffects'', Method ''applyTraitBonuses'', Method ''resetBuffs'',
     Method ''getDistanceTo'', Method ''isValidPosition'', Method ''isTargetInRange'',
     Method ''upgrade'', Method ''clone'', Method ''toJSON'', Method ''toString'' ]"

definition prototype_lookup :: "class_element list \<Rightarrow> string \<Rightarrow> class_element option" where
  "prototype_lookup body n = find (\<lambda>e. element_name e = n) (rev body)"

text \<open>The body of the accessor \<open>get attack()\<close>: base attack plus the attack bonus.\<close>

definition attack_getter :: "unit \<Rightarrow> jsnum" where
  "attack_getter u = js_add (baseAttack u) (attackBonus (buffs u))"

text \<open>What the expression \<open>unit.attack\<close> evaluates to.\<close>

definition Unit_attack :: "unit \<Rightarrow> jsval" where
  "Unit_attack u =
     (case prototype_lookup Unit_class_body ''attack'' of
        Some (Getter _) \<Rightarrow> JNumber (attack_getter u)
      | Some (Method m) \<Rightarrow> JFunction m
      | None \<Rightarrow> JUndefined)"

definition effectiveArmor :: "unit \<Rightarrow> jsnum" where
  "effectiveArmor u = js_add (armor u) (armorBonus (buffs u))"

definition effectiveMagicResist :: "unit \<Rightarrow> jsnum" where
  "effectiveMagicResist u = js_add (magicResist u) (magicResistBonus (buffs u))"

definition effectiveAttackSpeed :: "unit \<Rightarrow> jsnum" where
  "effectiveAttackSpeed u =
     (let speed = js_add (attackSpeed u) (attackSpeedBonus (buffs u));
          speed = (if slowed (statusEffects u)
                   then js_mul speed (js_sub (Num 1) (slowAmount (statusEffects u)))
                   else speed)
      in js_max (Num 0.1) speed)"

definition effectiveMaxHp :: "unit \<Rightarrow> jsnum" where
  "effectiveMaxHp u = js_add (maxHp u) (hpBonus (buffs u))"

definition isAlive :: "unit \<Rightarrow> bool" where
  "isAlive u \<longleftrightarrow> js_gt (currentHp u) (Num 0) \<and> state u \<noteq> DEAD"

definition isOnBoard :: "unit \<Rightarrow> bool" where
  "isOnBoard u \<longleftrightarrow> pos_x u \<noteq> None \<and> pos_y u \<noteq> None"

definition canAct :: "unit \<Rightarrow> bool" where
  "canAct u \<longleftrightarrow> isAlive u \<and> \<not> stunned (statusEffects u)"

subsection \<open>Combat methods\<close>

definition die :: "unit \<Rightarrow> unit" where
  "die u = u\<lparr> currentHp := Num 0, state := DEAD, target := None \<rparr>"

definition gainMana :: "jsnum \<Rightarrow> unit \<Rightarrow> unit" where
  "gainMana amount u =
     (if \<not> isAlive u then u
      else let totalGain = js_add amount (manaRegen (buffs u))
           in u\<lparr> currentMana := js_min (maxMana u) (js_add (currentMana u) totalGain) \<rparr>)"

text \<open>
  \<open>takeDamage(amount, type)\<close> returns the damage dealt and the updated unit. The
  amount is used in arithmetic only, which converts it to a number.
\<close>

definition mitigate :: "jsnum \<Rightarrow> jsnum \<Rightarrow> jsnum" where
  "mitigate amount stat =
     (let reduction = js_div stat (js_add stat (Num 100))
      in js_floor (js_mul amount (js_sub (Num 1) reduction)))"

definition takeDamage :: "jsval \<Rightarrow> string \<Rightarrow> unit \<Rightarrow> jsnum \<times> unit" where
  "takeDamage amount type u =
     (if \<not> isAlive u then (Num 0, u)
      else
        let actualDamage =
              (if type = ''physical'' then mitigate (ToNumber amount) (effectiveArmor u)
               else if type = ''magic'' then mitigate (ToNumber amount) (effectiveMagicResist u)
               else ToNumber amount);
            actualDamage =
              (if js_gt (damageReduction (buffs u)) (Num 0)
               then js_floor (js_mul actualDamage
                      (js_sub (Num 1) (js_div (damageReduction (buffs u)) (Num 100))))
               else actualDamage);
            actualDamage = js_max (Num 1) actualDamage;
            u1 = u\<lparr> currentHp := js_max (Num 0) (js_sub (currentHp u) actualDamage) \<rparr>;
            u2 = gainMana MANA_PER_DAMAGE_TAKEN u1;
            u3 = (if js_le (currentHp u2) (Num 0) then die u2 else u2)
        in (actualDamage, u3))"

definition heal :: "jsnum \<Rightarrow> unit \<Rightarrow> jsnum \<times> unit" where
  "heal amount u =
     (if \<not> isAlive u then (Num 0, u)
      else
        let maxHeal = js_sub (effectiveMaxHp u) (currentHp u);
            actualHeal = js_min amount maxHeal
        in (actualHeal, u\<lparr> currentHp := js_add (currentHp u) actualHeal \<rparr>))"

subsection \<open>State management\<close>

definition resetForCombat :: "unit \<Rightarrow> unit" where
  "resetForCombat u = u\<lparr> currentHp := effectiveMaxHp u, currentMana := Num 0, state := IDLE,
     target := None, attackCooldown := Num 0, statusEffects := clear_status \<rparr>"

definition applyStun :: "jsnum \<Rightarrow> unit \<Rightarrow> unit" where
  "applyStun duration u =
     (if \<not> isAlive u then u
      else u\<lparr> statusEffects := (statusEffects u)\<lparr> stunned := True,
             stunDuration := js_max (stunDuration (statusEffects u)) duration \<rparr> \<rparr>)"

definition applySlow :: "jsnum \<Rightarrow> jsnum \<Rightarrow> unit \<Rightarrow> unit" where
  "applySlow amount duration u =
     (if \<not> isAlive u then u
      else u\<lparr> statusEffects := (statusEffects u)\<lparr> slowed := True,
             slowAmount := js_max (slowAmount (statusEffects u)) amount,
             slowDuration := js_max (slowDuration (statusEffects u)) duration \<rparr> \<rparr>)"

definition updateStatusEffects :: "jsnum \<Rightarrow> unit \<Rightarrow> unit" where
  "updateStatusEffects deltaTime u =
     (let s = statusEffects u;
          s = (if stunned s
               then let s1 = s\<lparr> stunDuration := js_sub (stunDuration s) deltaTime \<rparr>
                    in if js_le (stunDuration s1) (Num 0)
                       then s1\<lparr> stunned := False, stunDuration := Num 0 \<rparr> else s1
               else s);
          s = (if slowed s
               then let s1 = s\<lparr> slowDuration := js_sub (slowDuration s) deltaTime \<rparr>
                    in if js_le (slowDuration s1) (Num 0)
                       then s1\<lparr> slowed := False, slowAmount := Num 0, slowDuration := Num 0 \<rparr>
                       else s1
               else s)
      in u\<lparr> statusEffects := s \<rparr>)"

definition resetBuffs :: "unit \<Rightarrow> unit" where
  "resetBuffs u = u\<lparr> buffs := zero_buffs \<rparr>"

subsection \<open>Utility methods\<close>

text \<open>Chebyshev distance; \<open>Infinity\<close> when one of the two units is off the board.\<close>

definition getDistanceTo :: "unit \<Rightarrow> unit \<Rightarrow> jsnum" where
  "getDistanceTo u other =
     (case (pos_x u, pos_y u, pos_x other, pos_y other) of
        (Some x1, Some y1, Some x2, Some y2) \<Rightarrow> Num (of_int (max \<bar>x1 - x2\<bar> \<bar>y1 - y2\<bar>))
      | _ \<Rightarrow> PInf)"

text \<open>
  \<open>clone()\<close> builds a new object from the template and copies the combat state, the
  buffs and the status effects; the target and the cooldown are those of a new unit.
\<close>

definition clone :: "nat \<Rightarrow> unit \<Rightarrow> error + unit" where
  "clone next_id u =
     (case new_Unit (templateId u) (starLevel u) next_id of
        Inl e \<Rightarrow> Inl e
      | Inr c \<Rightarrow> Inr (c\<lparr> currentHp := currentHp u, currentMana := currentMana u,
                    pos_x := pos_x u, pos_y := pos_y u, state := state u,
                    ownerId := ownerId u, buffs := buffs u,
                    statusEffects := statusEffects u \<rparr>))"

section \<open>Traits (data.js, traits.js)\<close>

text \<open>
  \<open>TRAITS\<close>: for each trait the bonus bundles by threshold, in the key order of the
  object (integer keys ascending); a bundle lists its entries in source order.
\<close>

definition TRAITS :: "(string \<times> string \<times> (nat \<times> (string \<times> jsnum) list) list) list" where
  "TRAITS = [
    (''warrior'', ''Warrior'',
       [(2, [(''armor'', Num 25)]), (4, [(''armor'', Num 55), (''attackBonus'', Num 15)])]),
    (''mage'', ''Mage'',
       [(2, [(''spellPower'', Num 20), (''manaRegen'', Num 10)]),
        (4, [(''spellPower'', Num 50), (''manaRegen'', Num 25)])]),
    (''assassin'', ''Assassin'',
       [(2, [(''critChance'', Num 15), (''critDamage'', Num 25)]),
        (4, [(''critChance'', Num 35), (''critDamage'', Num 50)])]),
    (''tank'', ''Tank'',
       [(2, [(''hpBonus'', Num 200), (''damageReduction'', Num 10)]),
        (4, [(''hpBonus'', Num 500), (''damageReduction'', Num 25)])]),
    (''ranger'', ''Ranger'',
       [(2, [(''attackSpeedBonus'', Num 0.2)]),
        (4, [(''attackSpeedBonus'', Num 0.5), (''range'', Num 1)])]),
    (''elemental'', ''Elemental'',
       [(2, [(''magicDamage'', Num 20), (''magicResist'', Num 20)]),
        (4, [(''magicDamage'', Num 45), (''magicResist'', Num 45)])])
  ]"

text \<open>\<open>getTraitBonus\<close>: the highest threshold that the count reaches, with its bundle.\<close>

definition getTraitBonus :: "string \<Rightarrow> nat \<Rightarrow> (nat \<times> (string \<times> jsnum) list) option" where
  "getTraitBonus traitId count =
     (case map_of TRAITS traitId of
        None \<Rightarrow> None
      | Some (_, bonuses) \<Rightarrow>
          (let thresholds = rev (sort (map fst bonuses))
           in case find (\<lambda>threshold. count \<ge> threshold) thresholds of
                None \<Rightarrow> None
              | Some threshold \<Rightarrow>
                  (case map_of bonuses threshold of
                     None \<Rightarrow> None
                   | Some bonus \<Rightarrow> Some (threshold, bonus))))"

text \<open>
  \<open>TraitSystem.calculateTraits\<close> (traits.js), the counting part: the map of counts as
  an association list in insertion order.
\<close>

fun set_key :: "string \<Rightarrow> nat \<Rightarrow> (string \<times> nat) list \<Rightarrow> (string \<times> nat) list" where
  "set_key k v [] = [(k, v)]"
| "set_key k v ((k', v') # m) = (if k' = k then (k, v) # m else (k', v') # set_key k v m)"

definition bump :: "string \<Rightarrow> (string \<times> nat) list \<Rightarrow> (string \<times> nat) list" where
  "bump k m = set_key k (case map_of m k of None \<Rightarrow> 1 | Some n \<Rightarrow> n + 1) m"

definition calculateTraits :: "unit list \<Rightarrow> (string \<times> nat) list" where
  "calculateTraits units =
     (let activeUnits = filter (\<lambda>u. isOnBoard u \<and> isAlive u) units
      in fold (\<lambda>u counts. fold bump (traits u) counts) activeUnits [])"

section \<open>The combat engine (combat.js)\<close>

record CombatResult =
  winner :: "string option"
  damageToPlayer :: nat
  damageToEnemy :: nat
  survivingPlayerUnits :: "nat list"
  survivingEnemyUnits :: "nat list"
  totalTicks :: nat

definition new_CombatResult :: CombatResult where
  "new_CombatResult = \<lparr> winner = None, damageToPlayer = 0, damageToEnemy = 0,
     survivingPlayerUnits = [], survivingEnemyUnits = [], totalTicks = 0 \<rparr>"

datatype log_data =
    CombatStart nat nat
  | Move string "int \<times> int" "int \<times> int"
  | Attack string string jsnum jsnum jsnum bool jsnum bool
  | AbilityDamage string string string jsnum
  | AbilityBuff string string jsnum bool
  | AbilityChain string string string nat jsnum
  | AbilityHit string string string nat jsnum
  | TraitActive string nat nat "(string \<times> jsnum) list"
  | CombatEnd string nat nat nat nat

record log_entry =
  tick_no :: nat
  data :: log_data

text \<open>
  The state of a \<open>Combat\<close> object. Unit objects live in \<open>heap\<close>; \<open>playerUnits\<close>,
  \<open>enemyUnits\<close>, the survivor lists of the result and \<open>target\<close> hold addresses
  (indices into \<open>heap\<close>), so that a change to a unit is seen through every reference.
  \<open>random_stream\<close> gives the successive results of \<open>Math.random()\<close> and
  \<open>random_used\<close> counts the draws made. \<open>nextUnitId\<close> is the global id counter of
  unit.js. The log of the result is the array \<open>combatLog\<close> itself; the time stamp of
  a log entry and the two callbacks (\<open>onTick\<close>, \<open>onCombatEnd\<close>) are left out.
\<close>

record combat =
  heap :: "unit list"
  playerUnits :: "nat list"
  enemyUnits :: "nat list"
  isRunning :: bool
  tickCount :: nat
  result :: CombatResult
  combatLog :: "log_entry list"
  occupiedPositions :: "(int \<times> int) set"
  random_stream :: "nat \<Rightarrow> real"
  random_used :: nat
  nextUnitId :: nat

definition upd :: "nat \<Rightarrow> (unit \<Rightarrow> unit) \<Rightarrow> combat \<Rightarrow> combat" where
  "upd a f c = c\<lparr> heap := (heap c)[a := f (heap c ! a)] \<rparr>"

definition log_event :: "log_data \<Rightarrow> combat \<Rightarrow> combat" where
  "log_event d c = c\<lparr> combatLog := combatLog c @ [\<lparr> tick_no = tickCount c, data = d \<rparr>] \<rparr>"

definition Math_random :: "combat \<Rightarrow> real \<times> combat" where
  "Math_random c = (random_stream c (random_used c), c\<lparr> random_used := Suc (random_used c) \<rparr>)"

definition takeDamage_at :: "nat \<Rightarrow> jsval \<Rightarrow> string \<Rightarrow> combat \<Rightarrow> jsnum \<times> combat" where
  "takeDamage_at a amount type c =
     (let (dealt, u) = takeDamage amount type (heap c ! a)
      in (dealt, c\<lparr> heap := (heap c)[a := u] \<rparr>))"

subsection \<open>Utility methods\<close>

definition alive_of :: "combat \<Rightarrow> nat list \<Rightarrow> nat list" where
  "alive_of c as = filter (\<lambda>a. isAlive (heap c ! a)) as"

definition updateOccupiedPositions :: "combat \<Rightarrow> combat" where
  "updateOccupiedPositions c =
     c\<lparr> occupiedPositions :=
          set (List.map_filter
                 (\<lambda>a. let u = heap c ! a
                      in if isAlive u \<and> isOnBoard u
                         then Some (the (pos_x u), the (pos_y u)) else None)
                 (playerUnits c @ enemyUnits c)) \<rparr>"

definition isValidPosition :: "int \<Rightarrow> int \<Rightarrow> bool" where
  "isValidPosition x y \<longleftrightarrow> x \<ge> 0 \<and> x < BOARD_COLS \<and> y \<ge> 0 \<and> y < BOARD_ROWS"

definition getEffectiveRange :: "unit \<Rightarrow> jsnum" where
  "getEffectiveRange u = unit_range u"

text \<open>
  Fisher-Yates shuffle: \<open>i\<close> runs from the last index down to 1 and element \<open>i\<close> is
  swapped with element \<open>floor(Math.random() * (i + 1))\<close>.
\<close>

fun shuffle_from :: "nat \<Rightarrow> nat list \<Rightarrow> combat \<Rightarrow> nat list \<times> combat" where
  "shuffle_from 0 xs c = (xs, c)"
| "shuffle_from (Suc i) xs c =
     (let (r, c1) = Math_random c;
          j = nat \<lfloor>r * (real (Suc i) + 1)\<rfloor>
      in shuffle_from i (xs[Suc i := xs ! j, j := xs ! Suc i]) c1)"

definition shuffleArray :: "nat list \<Rightarrow> combat \<Rightarrow> nat list \<times> combat" where
  "shuffleArray xs c = shuffle_from (length xs - 1) xs c"

subsection \<open>Targeting\<close>

definition closest_step :: "combat \<Rightarrow> nat \<Rightarrow> nat \<Rightarrow> nat option \<times> jsnum \<Rightarrow> nat option \<times> jsnum" where
  "closest_step c a enemy acc =
     (let distance = getDistanceTo (heap c ! a) (heap c ! enemy)
      in if js_lt distance (snd acc) then (Some enemy, distance) else acc)"

definition findTarget :: "nat \<Rightarrow> nat list \<Rightarrow> combat \<Rightarrow> combat" where
  "findTarget a enemies c =
     (if \<not> isAlive (heap c ! a) \<or> enemies = [] then upd a (\<lambda>u. u\<lparr> target := None \<rparr>) c
      else
        let validEnemies = filter (\<lambda>e. isAlive (heap c ! e) \<and> isOnBoard (heap c ! e)) enemies
        in if validEnemies = [] then upd a (\<lambda>u. u\<lparr> target := None \<rparr>) c
           else
             let closestEnemy = fst (fold (closest_step c a) validEnemies (None, PInf))
             in upd a (\<lambda>u. u\<lparr> target := closestEnemy \<rparr>) c)"

subsection \<open>Movement\<close>

definition generateMoveOptions :: "int \<Rightarrow> int \<Rightarrow> int \<Rightarrow> int \<Rightarrow> (int \<times> int) list" where
  "generateMoveOptions ux uy dx dy =
     (if dx \<noteq> 0 \<and> dy \<noteq> 0 then [(ux + dx, uy + dy), (ux + dx, uy), (ux, uy + dy)]
      else if dx \<noteq> 0 then [(ux + dx, uy), (ux + dx, uy + 1), (ux + dx, uy - 1)]
      else if dy \<noteq> 0 then [(ux, uy + dy), (ux + 1, uy + dy), (ux - 1, uy + dy)]
      else [])"

text \<open>
  \<open>moveToward\<close>: the first option that is on the board and free is taken. The log
  entry computes the origin from the coordinates after the move, so it repeats the
  destination.
\<close>

definition moveToward :: "nat \<Rightarrow> nat \<Rightarrow> combat \<Rightarrow> bool \<times> combat" where
  "moveToward a t c =
     (let u = heap c ! a; tg = heap c ! t
      in if \<not> canAct u \<or> \<not> isOnBoard u \<or> \<not> isOnBoard tg then (False, c)
         else
           let ux = the (pos_x u); uy = the (pos_y u);
               dx = sgn (the (pos_x tg) - ux);
               dy = sgn (the (pos_y tg) - uy)
           in if dx = 0 \<and> dy = 0 then (False, c)
              else
                (case find (\<lambda>(ox, oy). isValidPosition ox oy \<and> (ox, oy) \<notin> occupiedPositions c)
                        (generateMoveOptions ux uy dx dy) of
                   Some (ox, oy) \<Rightarrow>
                     let c1 = c\<lparr> occupiedPositions :=
                                  insert (ox, oy) (occupiedPositions c - {(ux, uy)}) \<rparr>;
                         c2 = upd a (\<lambda>u. u\<lparr> pos_x := Some ox, pos_y := Some oy,
                                               state := MOVING \<rparr>) c1
                     in (True, log_event (Move (name u) (ox, oy) (ox, oy)) c2)
                 | None \<Rightarrow> (False, upd a (\<lambda>u. u\<lparr> state := IDLE \<rparr>) c)))"

subsection \<open>Combat actions\<close>

text \<open>The parts of \<open>castAbility\<close>, one for each independent check of the descriptor.\<close>

definition crowd_control :: "ability \<Rightarrow> nat \<Rightarrow> combat \<Rightarrow> combat" where
  "crowd_control ab e c =
     (let c = (if truthy (ab_stun ab) then upd e (applyStun (the (ab_stun ab))) c else c)
      in if truthy (ab_slow ab)
         then upd e (applySlow (the (ab_slow ab))
                       (if truthy (ab_duration ab) then the (ab_duration ab) else Num 2)) c
         else c)"

definition ability_hit_one :: "ability \<Rightarrow> nat \<Rightarrow> jsnum \<Rightarrow> nat \<Rightarrow> combat \<Rightarrow> combat" where
  "ability_hit_one ab caster baseDamage e c =
     (let (damageDealt, c) = takeDamage_at e (JNumber baseDamage) ''magic'' c;
          c = log_event (AbilityDamage (name (heap c ! caster)) (ab_name ab)
                           (name (heap c ! e)) damageDealt) c
      in crowd_control ab e c)"

definition cast_damage :: "ability \<Rightarrow> nat \<Rightarrow> nat \<Rightarrow> nat list \<Rightarrow> jsnum \<Rightarrow> combat \<Rightarrow> combat" where
  "cast_damage ab caster tgt enemies spm c =
     (if truthy (ab_damage ab)
      then let baseDamage = js_floor (js_mul (the (ab_damage ab)) spm)
           in if ab_aoe ab then fold (ability_hit_one ab caster baseDamage) enemies c
              else ability_hit_one ab caster baseDamage tgt c
      else c)"

definition cast_multiplier :: "ability \<Rightarrow> nat \<Rightarrow> nat \<Rightarrow> jsnum \<Rightarrow> combat \<Rightarrow> combat" where
  "cast_multiplier ab caster tgt spm c =
     (if truthy (ab_damageMultiplier ab)
      then let damage = js_floor (js_mul (js_mul (ToNumber (Unit_attack (heap c ! caster)))
                                            (the (ab_damageMultiplier ab))) spm);
               (damageDealt, c) = takeDamage_at tgt (JNumber damage) ''physical'' c
           in log_event (AbilityDamage (name (heap c ! caster)) (ab_name ab)
                           (name (heap c ! tgt)) damageDealt) c
      else c)"

definition cast_armor :: "ability \<Rightarrow> nat \<Rightarrow> combat \<Rightarrow> combat" where
  "cast_armor ab caster c =
     (if truthy (ab_armorBonus ab)
      then let c = upd caster (\<lambda>u. u\<lparr> buffs := (buffs u)\<lparr> armorBonus :=
                        js_add (armorBonus (buffs u)) (the (ab_armorBonus ab)) \<rparr> \<rparr>) c
           in log_event (AbilityBuff (name (heap c ! caster)) (ab_name ab)
                           (the (ab_armorBonus ab)) False) c
      else c)"

definition cast_warcry :: "ability \<Rightarrow> nat \<Rightarrow> combat \<Rightarrow> combat" where
  "cast_warcry ab caster c =
     (if truthy (ab_attackBonus ab) \<and> ab_aoe ab
      then let allies = (if ownerId (heap c ! caster) = Some ''player''
                         then alive_of c (playerUnits c) else alive_of c (enemyUnits c));
               c = fold (\<lambda>ally. upd ally (\<lambda>u. u\<lparr> buffs := (buffs u)\<lparr> attackBonus :=
                             js_add (attackBonus (buffs u)) (the (ab_attackBonus ab)) \<rparr> \<rparr>))
                     allies c
           in log_event (AbilityBuff (name (heap c ! caster)) (ab_name ab)
                           (the (ab_attackBonus ab)) True) c
      else c)"

text \<open>
  The stable sort of the chain: \<open>x\<close> goes behind \<open>y\<close> only when the comparator
  \<open>distance(x) - distance(y)\<close> is positive.
\<close>

fun insert_by :: "(nat \<Rightarrow> jsnum) \<Rightarrow> nat \<Rightarrow> nat list \<Rightarrow> nat list" where
  "insert_by k x [] = [x]"
| "insert_by k x (y # ys) =
     (if js_gt (js_sub (k x) (k y)) (Num 0) then y # insert_by k x ys else x # y # ys)"

definition sort_by :: "(nat \<Rightarrow> jsnum) \<Rightarrow> nat list \<Rightarrow> nat list" where
  "sort_by k xs = foldr (insert_by k) xs []"

definition chain_hit :: "ability \<Rightarrow> nat \<Rightarrow> jsnum \<Rightarrow> nat list \<Rightarrow> nat \<Rightarrow> combat \<Rightarrow> combat" where
  "chain_hit ab caster baseDamage sortedEnemies i c =
     (let chainTarget = sortedEnemies ! i;
          chainDamage = js_floor (js_mul baseDamage (js_sub (Num 1) (js_mul (Num (real i)) (Num 0.2))));
          (damageDealt, c) = takeDamage_at chainTarget (JNumber chainDamage) ''magic'' c
      in log_event (AbilityChain (name (heap c ! caster)) (ab_name ab)
                      (name (heap c ! chainTarget)) (i + 1) damageDealt) c)"

definition cast_chain :: "ability \<Rightarrow> nat \<Rightarrow> nat list \<Rightarrow> jsnum \<Rightarrow> combat \<Rightarrow> combat" where
  "cast_chain ab caster enemies spm c =
     (if ab_chainTargets ab \<noteq> None \<and> ab_chainTargets ab \<noteq> Some 0 \<and> truthy (ab_damage ab)
      then let baseDamage = js_floor (js_mul (the (ab_damage ab)) spm);
               chainCount = min (the (ab_chainTargets ab)) (length enemies);
               sortedEnemies =
                 sort_by (\<lambda>e. getDistanceTo (heap c ! caster) (heap c ! e)) enemies
           in fold (chain_hit ab caster baseDamage sortedEnemies)
                [0 ..< min chainCount (length sortedEnemies)] c
      else c)"

definition whirl_hit :: "ability \<Rightarrow> nat \<Rightarrow> jsnum \<Rightarrow> nat \<Rightarrow> nat \<Rightarrow> combat \<Rightarrow> combat" where
  "whirl_hit ab caster baseDamage hit e c =
     (if isAlive (heap c ! e)
         \<and> js_le (getDistanceTo (heap c ! caster) (heap c ! e)) (Num 1)
      then let (damageDealt, c) = takeDamage_at e (JNumber baseDamage) ''physical'' c
           in log_event (AbilityHit (name (heap c ! caster)) (ab_name ab)
                           (name (heap c ! e)) (hit + 1) damageDealt) c
      else c)"

definition cast_hits :: "ability \<Rightarrow> nat \<Rightarrow> nat list \<Rightarrow> jsnum \<Rightarrow> combat \<Rightarrow> combat" where
  "cast_hits ab caster enemies spm c =
     (if ab_hits ab \<noteq> None \<and> ab_hits ab \<noteq> Some 0 \<and> truthy (ab_damage ab) \<and> ab_aoe ab
      then let baseDamage = js_floor (js_mul (the (ab_damage ab)) spm)
           in fold (\<lambda>hit c. fold (whirl_hit ab caster baseDamage hit) enemies c)
                [0 ..< the (ab_hits ab)] c
      else c)"

definition castAbility :: "nat \<Rightarrow> nat \<Rightarrow> combat \<Rightarrow> combat" where
  "castAbility caster tgt c =
     (case ability (heap c ! caster) of
        None \<Rightarrow> c
      | Some ab \<Rightarrow>
          let c = upd caster (\<lambda>u. u\<lparr> currentMana := Num 0, state := CASTING \<rparr>) c;
              enemies = (if ownerId (heap c ! caster) = Some ''player''
                         then alive_of c (enemyUnits c) else alive_of c (playerUnits c));
              spellPowerMultiplier =
                js_add (Num 1) (js_div (spellPower (buffs (heap c ! caster))) (Num 100));
              c = cast_damage ab caster tgt enemies spellPowerMultiplier c;
              c = cast_multiplier ab caster tgt spellPowerMultiplier c;
              c = cast_armor ab caster c;
              c = cast_warcry ab caster c;
              c = cast_chain ab caster enemies spellPowerMultiplier c
          in cast_hits ab caster enemies spellPowerMultiplier c)"

text \<open>
  \<open>attack(attacker, defender)\<close>. The base damage is what \<open>attacker.attack\<close> evaluates
  to; a critical strike is rolled only when the crit chance is positive.
\<close>

definition Combat_attack :: "nat \<Rightarrow> nat \<Rightarrow> combat \<Rightarrow> combat" where
  "Combat_attack a d c =
     (if \<not> canAct (heap c ! a) \<or> \<not> isAlive (heap c ! d) then c
      else
        let attacker = heap c ! a;
            damage = Unit_attack attacker;
            (damage, isCrit, c) =
              (if js_gt (critChance (buffs attacker)) (Num 0)
               then let (r, c1) = Math_random c;
                        critRoll = Num (r * 100)
                    in if js_lt critRoll (critChance (buffs attacker))
                       then let critMultiplier =
                                  js_add (Num 1.5) (js_div (critDamage (buffs attacker)) (Num 100))
                            in (JNumber (js_floor (js_mul (ToNumber damage) critMultiplier)),
                                True, c1)
                       else (damage, False, c1)
               else (damage, False, c));
            (physicalDamageDealt, c) = takeDamage_at d damage ''physical'' c;
            (magicDamageDealt, c) =
              (if js_gt (magicDamage (buffs attacker)) (Num 0)
               then takeDamage_at d (JNumber (magicDamage (buffs attacker))) ''magic'' c
               else (Num 0, c));
            totalDamage = js_add physicalDamageDealt magicDamageDealt;
            c = upd a (gainMana MANA_PER_ATTACK) c;
            c = log_event (Attack (name (heap c ! a)) (name (heap c ! d)) physicalDamageDealt
                             magicDamageDealt totalDamage isCrit (currentHp (heap c ! d))
                             (\<not> isAlive (heap c ! d))) c
        in if js_ge (currentMana (heap c ! a)) (maxMana (heap c ! a))
              \<and> ability (heap c ! a) \<noteq> None
           then castAbility a d c else c)"

subsection \<open>Trait bonuses at combat start\<close>

text \<open>
  \<open>countTraits\<close>: the counts in insertion order; \<open>countedUnits\<close> holds the keys
  \<open>unit.id + "_" + traitId\<close> as pairs.
\<close>

definition count_trait ::
  "nat \<Rightarrow> string \<Rightarrow> (string \<times> nat) list \<times> (nat \<times> string) set
     \<Rightarrow> (string \<times> nat) list \<times> (nat \<times> string) set" where
  "count_trait uid traitId acc =
     (let counts = fst acc; countedUnits = snd acc;
          counts = (if map_of counts traitId = None \<or> map_of counts traitId = Some 0
                    then set_key traitId 0 counts else counts)
      in if (uid, traitId) \<notin> countedUnits
         then (set_key traitId (the (map_of counts traitId) + 1) counts,
               insert (uid, traitId) countedUnits)
         else (counts, countedUnits))"

definition countTraits :: "unit list \<Rightarrow> (string \<times> nat) list" where
  "countTraits units =
     fst (fold (\<lambda>u acc. if \<not> isAlive u then acc
                         else fold (count_trait (unit_id u)) (traits u) acc)
            units ([], {}))"

definition bonusMapping :: "string \<Rightarrow> string option" where
  "bonusMapping k = map_of [
     (''armor'', ''armorBonus''), (''attackBonus'', ''attackBonus''),
     (''spellPower'', ''spellPower''), (''manaRegen'', ''manaRegen''),
     (''critChance'', ''critChance''), (''critDamage'', ''critDamage''),
     (''hpBonus'', ''hpBonus''), (''damageReduction'', ''damageReduction''),
     (''attackSpeedBonus'', ''attackSpeedBonus''), (''magicDamage'', ''magicDamage''),
     (''magicResist'', ''magicResistBonus'')] k"

text \<open>\<open>unit.buffs[buffKey] += value\<close> for a key of the buffs object.\<close>

definition add_buff :: "string \<Rightarrow> jsnum \<Rightarrow> buff_rec \<Rightarrow> buff_rec" where
  "add_buff k v b =
     (if k = ''attackBonus'' then b\<lparr> attackBonus := js_add (attackBonus b) v \<rparr>
      else if k = ''armorBonus'' then b\<lparr> armorBonus := js_add (armorBonus b) v \<rparr>
      else if k = ''magicResistBonus'' then b\<lparr> magicResistBonus := js_add (magicResistBonus b) v \<rparr>
      else if k = ''attackSpeedBonus'' then b\<lparr> attackSpeedBonus := js_add (attackSpeedBonus b) v \<rparr>
      else if k = ''hpBonus'' then b\<lparr> hpBonus := js_add (hpBonus b) v \<rparr>
      else if k = ''spellPower'' then b\<lparr> spellPower := js_add (spellPower b) v \<rparr>
      else if k = ''critChance'' then b\<lparr> critChance := js_add (critChance b) v \<rparr>
      else if k = ''critDamage'' then b\<lparr> critDamage := js_add (critDamage b) v \<rparr>
      else if k = ''damageReduction'' then b\<lparr> damageReduction := js_add (damageReduction b) v \<rparr>
      else if k = ''magicDamage'' then b\<lparr> magicDamage := js_add (magicDamage b) v \<rparr>
      else if k = ''manaRegen'' then b\<lparr> manaRegen := js_add (manaRegen b) v \<rparr>
      else b)"

definition apply_bonus_entry :: "string \<times> jsnum \<Rightarrow> unit \<Rightarrow> unit" where
  "apply_bonus_entry e u =
     (let u = (case bonusMapping (fst e) of
                 Some buffKey \<Rightarrow> u\<lparr> buffs := add_buff buffKey (snd e) (buffs u) \<rparr>
               | None \<Rightarrow> u)
      in if fst e = ''range'' then u\<lparr> unit_range := js_add (unit_range u) (snd e) \<rparr> else u)"

definition applyBonusToUnit :: "(string \<times> jsnum) list \<Rightarrow> unit \<Rightarrow> unit" where
  "applyBonusToUnit bonus u = fold apply_bonus_entry bonus u"

definition trait_display_name :: "string \<Rightarrow> string" where
  "trait_display_name traitId = (case map_of TRAITS traitId of Some (n, _) \<Rightarrow> n | None \<Rightarrow> traitId)"

definition apply_trait :: "nat list \<Rightarrow> string \<times> nat \<Rightarrow> combat \<Rightarrow> combat" where
  "apply_trait units tc c =
     (case getTraitBonus (fst tc) (snd tc) of
        None \<Rightarrow> c
      | Some (threshold, bonus) \<Rightarrow>
          let c = fold (\<lambda>a c. if fst tc \<in> set (traits (heap c ! a)) \<and> isAlive (heap c ! a)
                               then upd a (applyBonusToUnit bonus) c else c) units c
          in log_event (TraitActive (trait_display_name (fst tc)) (snd tc) threshold bonus) c)"

definition applyTraitBonuses :: "nat list \<Rightarrow> combat \<Rightarrow> combat" where
  "applyTraitBonuses units c =
     (let c = fold (\<lambda>a. upd a resetBuffs) units c;
          traitCounts = countTraits (map (\<lambda>a. heap c ! a) units)
      in fold (apply_trait units) traitCounts c)"

subsection \<open>Combat state\<close>

definition isOver :: "combat \<Rightarrow> bool" where
  "isOver c \<longleftrightarrow> alive_of c (playerUnits c) = [] \<or> alive_of c (enemyUnits c) = []"

definition calculateDamage :: "combat \<Rightarrow> nat list \<Rightarrow> nat" where
  "calculateDamage c survivingUnits = fold (\<lambda>a damage. damage + starLevel (heap c ! a)) survivingUnits 2"

definition stop :: "combat \<Rightarrow> combat" where
  "stop c = c\<lparr> isRunning := False \<rparr>"

definition endCombat :: "string \<Rightarrow> nat \<Rightarrow> combat \<Rightarrow> combat" where
  "endCombat w damageToLoser c =
     (let c = stop c;
          r = (result c)\<lparr> winner := Some w, totalTicks := tickCount c,
                 survivingPlayerUnits := alive_of c (playerUnits c),
                 survivingEnemyUnits := alive_of c (enemyUnits c) \<rparr>;
          r = (if w = ''enemy'' then r\<lparr> damageToPlayer := damageToLoser \<rparr>
               else if w = ''player'' then r\<lparr> damageToEnemy := damageToLoser \<rparr>
               else r);
          c = c\<lparr> result := r \<rparr>
      in log_event (CombatEnd w damageToLoser (tickCount c)
                      (length (survivingPlayerUnits r)) (length (survivingEnemyUnits r))) c)"

definition determinWinner :: "combat \<Rightarrow> combat" where
  "determinWinner c =
     (let alivePlayerUnits = alive_of c (playerUnits c);
          aliveEnemyUnits = alive_of c (enemyUnits c)
      in if alivePlayerUnits = [] \<and> aliveEnemyUnits = [] then endCombat ''draw'' 0 c
         else if alivePlayerUnits = [] then endCombat ''enemy'' (calculateDamage c aliveEnemyUnits) c
         else endCombat ''player'' (calculateDamage c alivePlayerUnits) c)"

subsection \<open>The tick\<close>

definition process_unit :: "jsnum \<Rightarrow> nat list \<Rightarrow> nat list \<Rightarrow> nat \<Rightarrow> combat \<Rightarrow> combat" where
  "process_unit deltaTime alivePlayerUnits aliveEnemyUnits a c =
     (if \<not> isAlive (heap c ! a) then c
      else
        let c = upd a (updateStatusEffects deltaTime) c
        in if \<not> canAct (heap c ! a) then c
           else
             let enemies = (if ownerId (heap c ! a) = Some ''player''
                            then aliveEnemyUnits else alivePlayerUnits);
                 c = (case target (heap c ! a) of
                        None \<Rightarrow> findTarget a enemies c
                      | Some t \<Rightarrow> if \<not> isAlive (heap c ! t) then findTarget a enemies c else c)
             in case target (heap c ! a) of
                  None \<Rightarrow> c
                | Some t \<Rightarrow>
                    let c = (if js_gt (attackCooldown (heap c ! a)) (Num 0)
                             then upd a (\<lambda>u. u\<lparr> attackCooldown :=
                                                 js_sub (attackCooldown u) deltaTime \<rparr>) c
                             else c);
                        distance = getDistanceTo (heap c ! a) (heap c ! t);
                        effectiveRange = getEffectiveRange (heap c ! a)
                    in if js_le distance effectiveRange
                       then if js_le (attackCooldown (heap c ! a)) (Num 0)
                            then let c = Combat_attack a t c;
                                     c = upd a (\<lambda>u. u\<lparr> attackCooldown :=
                                                 js_div (Num 1) (effectiveAttackSpeed u) \<rparr>) c
                                 in upd a (\<lambda>u. u\<lparr> state := ATTACKING \<rparr>) c
                            else upd a (\<lambda>u. u\<lparr> state := IDLE \<rparr>) c
                       else snd (moveToward a t c))"

definition tick :: "combat \<Rightarrow> combat" where
  "tick c =
     (if \<not> isRunning c then c
      else
        let c = c\<lparr> tickCount := Suc (tickCount c) \<rparr>;
            deltaTime = Num (COMBAT_TICK_MS / 1000);
            alivePlayerUnits = alive_of c (playerUnits c);
            aliveEnemyUnits = alive_of c (enemyUnits c)
        in if isOver c then determinWinner c
           else
             let c = updateOccupiedPositions c;
                 (allUnits, c) = shuffleArray (alivePlayerUnits @ aliveEnemyUnits) c
             in fold (process_unit deltaTime alivePlayerUnits aliveEnemyUnits) allUnits c)"

subsection \<open>Running a combat\<close>

definition initializeUnits :: "combat \<Rightarrow> combat" where
  "initializeUnits c = fold (\<lambda>a. upd a resetForCombat) (playerUnits c @ enemyUnits c) c"

text \<open>Cloning a roster: each clone takes the next id; the first failure is thrown.\<close>

fun clone_all :: "nat \<Rightarrow> unit list \<Rightarrow> error + unit list \<times> nat" where
  "clone_all n [] = Inr ([], n)"
| "clone_all n (u # us) =
     (case clone n u of
        Inl e \<Rightarrow> Inl e
      | Inr c \<Rightarrow> (case clone_all (Suc n) us of
                    Inl e \<Rightarrow> Inl e
                  | Inr (cs, n') \<Rightarrow> Inr (c # cs, n')))"

text \<open>
  The preparation shared by \<open>start\<close> and \<open>runSync\<close>: the clones are the only objects of
  the new store, the player's first.
\<close>

definition prepare :: "unit list \<Rightarrow> unit list \<Rightarrow> combat \<Rightarrow> error + combat" where
  "prepare players enemies c =
     (case clone_all (nextUnitId c) players of
        Inl e \<Rightarrow> Inl e
      | Inr (ps, n1) \<Rightarrow>
          (case clone_all n1 enemies of
             Inl e \<Rightarrow> Inl e
           | Inr (es, n2) \<Rightarrow>
               let ps = map (\<lambda>u. u\<lparr> ownerId := Some ''player'' \<rparr>) ps;
                   es = map (\<lambda>u. u\<lparr> ownerId := Some ''enemy'' \<rparr>) es;
                   c = c\<lparr> heap := ps @ es, playerUnits := [0 ..< length ps],
                          enemyUnits := [length ps ..< length ps + length es],
                          nextUnitId := n2, isRunning := True, tickCount := 0,
                          combatLog := [], result := new_CombatResult \<rparr>;
                   c = initializeUnits c;
                   c = applyTraitBonuses (playerUnits c) c;
                   c = applyTraitBonuses (enemyUnits c) c;
                   c = updateOccupiedPositions c
               in Inr (log_event (CombatStart (length (playerUnits c)) (length (enemyUnits c))) c)))"

subsection \<open>The control state\<close>

text \<open>
  The fields of the combat that no action of a unit touches: running flag, tick
  counter, result, the two rosters, the size of the store, the random stream and the
  id counter. Every function called from the loop over the units leaves them alone.
\<close>

definition ctrl :: "combat \<Rightarrow> bool \<times> nat \<times> CombatResult \<times> nat list \<times> nat list \<times> nat \<times> (nat \<Rightarrow> real) \<times> nat" where
  "ctrl c = (isRunning c, tickCount c, result c, playerUnits c, enemyUnits c, length (heap c),
             random_stream c, nextUnitId c)"

lemma ctrl_upd [simp]: "ctrl (upd a f c) = ctrl c"
  by (simp add: ctrl_def upd_def)

lemma ctrl_log_event [simp]: "ctrl (log_event d c) = ctrl c"
  by (simp add: ctrl_def log_event_def)

lemma ctrl_Math_random [simp]: "ctrl (snd (Math_random c)) = ctrl c"
  by (simp add: ctrl_def Math_random_def)

lemma ctrl_takeDamage_at [simp]: "ctrl (snd (takeDamage_at a v t c)) = ctrl c"
  by (simp add: ctrl_def takeDamage_at_def case_prod_beta)

lemma ctrl_occupied [simp]: "ctrl (c\<lparr> occupiedPositions := s \<rparr>) = ctrl c"
  by (simp add: ctrl_def)

lemma ctrl_fold: "(\<And>x c. ctrl (f x c) = ctrl c) \<Longrightarrow> ctrl (fold f xs c) = ctrl c"
  by (induction xs arbitrary: c) simp_all

lemma ctrl_crowd_control [simp]: "ctrl (crowd_control ab e c) = ctrl c"
  by (simp add: crowd_control_def Let_def)

lemma ctrl_ability_hit_one [simp]: "ctrl (ability_hit_one ab k b e c) = ctrl c"
  by (simp add: ability_hit_one_def Let_def case_prod_beta)

lemma ctrl_cast_damage [simp]: "ctrl (cast_damage ab k t es spm c) = ctrl c"
  by (simp add: cast_damage_def Let_def ctrl_fold)

lemma ctrl_cast_multiplier [simp]: "ctrl (cast_multiplier ab k t spm c) = ctrl c"
  by (simp add: cast_multiplier_def Let_def case_prod_beta)

lemma ctrl_cast_armor [simp]: "ctrl (cast_armor ab k c) = ctrl c"
  by (simp add: cast_armor_def Let_def)

lemma ctrl_cast_warcry [simp]: "ctrl (cast_warcry ab k c) = ctrl c"
  by (simp add: cast_warcry_def Let_def ctrl_fold)

lemma ctrl_chain_hit [simp]: "ctrl (chain_hit ab k b es i c) = ctrl c"
  by (simp add: chain_hit_def Let_def case_prod_beta)

lemma ctrl_cast_chain [simp]: "ctrl (cast_chain ab k es spm c) = ctrl c"
  by (simp add: cast_chain_def Let_def ctrl_fold)

lemma ctrl_whirl_hit [simp]: "ctrl (whirl_hit ab k b h e c) = ctrl c"
  by (simp add: whirl_hit_def Let_def case_prod_beta)

lemma ctrl_cast_hits [simp]: "ctrl (cast_hits ab k es spm c) = ctrl c"
  by (simp add: cast_hits_def Let_def ctrl_fold)

lemma ctrl_castAbility [simp]: "ctrl (castAbility k t c) = ctrl c"
  by (simp add: castAbility_def Let_def split: option.splits)

lemma ctrl_Combat_attack [simp]: "ctrl (Combat_attack a d c) = ctrl c"
  by (simp add: Combat_attack_def Let_def case_prod_beta)

lemma ctrl_findTarget [simp]: "ctrl (findTarget a es c) = ctrl c"
  by (simp add: findTarget_def Let_def)

lemma ctrl_moveToward [simp]: "ctrl (snd (moveToward a t c)) = ctrl c"
  by (simp add: moveToward_def Let_def case_prod_beta split: option.splits)

lemma ctrl_shuffle_from [simp]: "ctrl (snd (shuffle_from i xs c)) = ctrl c"
  by (induction i arbitrary: xs c) (simp_all add: Let_def case_prod_beta)

lemma ctrl_shuffleArray [simp]: "ctrl (snd (shuffleArray xs c)) = ctrl c"
  by (simp add: shuffleArray_def)

lemma ctrl_process_unit [simp]: "ctrl (process_unit dt ap ae a c) = ctrl c"
  by (simp add: process_unit_def Let_def split: option.splits)

lemma ctrl_updateOccupiedPositions [simp]: "ctrl (updateOccupiedPositions c) = ctrl c"
  by (simp add: updateOccupiedPositions_def)

lemma ctrlD:
  assumes "ctrl c' = ctrl c"
  shows "isRunning c' = isRunning c" "tickCount c' = tickCount c" "result c' = result c"
    "playerUnits c' = playerUnits c" "enemyUnits c' = enemyUnits c"
    "length (heap c') = length (heap c)" "random_stream c' = random_stream c"
    "nextUnitId c' = nextUnitId c"
  using assms by (simp_all add: ctrl_def)

lemma ctrl_units_loop:
  "ctrl (fold (process_unit dt ap ae) xs c) = ctrl c"
  by (simp add: ctrl_fold)

lemma tickCount_endCombat [simp]: "tickCount (endCombat w d c) = tickCount c"
  by (simp add: endCombat_def stop_def log_event_def Let_def)

lemma tickCount_determinWinner [simp]: "tickCount (determinWinner c) = tickCount c"
  by (simp add: determinWinner_def Let_def)

lemma tickCount_tick: "isRunning c \<Longrightarrow> tickCount (tick c) = Suc (tickCount c)"
proof -
  assume run: "isRunning c"
  let ?c1 = "c\<lparr> tickCount := Suc (tickCount c) \<rparr>"
  show ?thesis
  proof (cases "isOver ?c1")
    case True
    then show ?thesis using run by (simp add: tick_def Let_def)
  next
    case False
    let ?c2 = "updateOccupiedPositions ?c1"
    let ?sh = "shuffleArray (alive_of ?c1 (playerUnits ?c1) @ alive_of ?c1 (enemyUnits ?c1)) ?c2"
    have "ctrl (snd ?sh) = ctrl ?c1" by simp
    then have "tickCount (snd ?sh) = Suc (tickCount c)"
      by (simp add: ctrl_def)
    moreover have "tickCount (fold (process_unit (Num (COMBAT_TICK_MS / 1000))
        (alive_of ?c1 (playerUnits ?c1)) (alive_of ?c1 (enemyUnits ?c1))) (fst ?sh) (snd ?sh))
        = tickCount (snd ?sh)"
      by (rule ctrlD(2)) (rule ctrl_units_loop)
    ultimately show ?thesis using run False
      by (simp add: tick_def Let_def case_prod_beta)
  qed
qed

text \<open>The loop of \<open>runSync\<close>. Each tick advances the counter, so the loop ends.\<close>

function run_loop :: "nat \<Rightarrow> combat \<Rightarrow> combat" where
  "run_loop maxTicks c =
     (if isRunning c \<and> tickCount c < maxTicks then run_loop maxTicks (tick c) else c)"
  by pat_completeness auto
termination
  by (relation "measure (\<lambda>(maxTicks, c). maxTicks - tickCount c)") (auto simp: tickCount_tick)

text \<open>
  \<open>new Combat()\<close>, given the random stream and the id counter of the page.
\<close>

definition new_Combat :: "(nat \<Rightarrow> real) \<Rightarrow> nat \<Rightarrow> combat" where
  "new_Combat rs n = \<lparr> heap = [], playerUnits = [], enemyUnits = [], isRunning = False,
     tickCount = 0, result = new_CombatResult, combatLog = [], occupiedPositions = {},
     random_stream = rs, random_used = 0, nextUnitId = n \<rparr>"

definition runSync :: "unit list \<Rightarrow> unit list \<Rightarrow> nat \<Rightarrow> combat \<Rightarrow> error + combat" where
  "runSync players enemies maxTicks c =
     (case prepare players enemies c of
        Inl e \<Rightarrow> Inl e
      | Inr c \<Rightarrow>
          let c = run_loop maxTicks c
          in Inr (if tickCount c \<ge> maxTicks \<and> isRunning c then endCombat ''draw'' 0 c else c))"

section \<open>Example units and the words of the specification\<close>

text \<open>A squire at (3,3) and an apprentice next to it at (3,4), both at one star.\<close>

definition example_squire :: unit where
  "example_squire = (projr (new_Unit ''squire'' 1 1))\<lparr> pos_x := Some 3, pos_y := Some 3 \<rparr>"

definition example_apprentice :: unit where
  "example_apprentice = (projr (new_Unit ''apprentice'' 1 2))\<lparr> pos_x := Some 3, pos_y := Some 4 \<rparr>"

text \<open>The defence stat that a damage type is mitigated by.\<close>

definition defence_stat :: "string \<Rightarrow> unit \<Rightarrow> jsnum" where
  "defence_stat type u = (if type = ''physical'' then effectiveArmor u else effectiveMagicResist u)"

text \<open>
  The damage as the specification words it: the mitigated amount, raised to 1 only when
  the amount before mitigation is positive.
\<close>

definition claimed_damage :: "real \<Rightarrow> real \<Rightarrow> real \<Rightarrow> real" where
  "claimed_damage amount d r =
     (let v = of_int \<lfloor>of_int \<lfloor>amount * (1 - d / (d + 100))\<rfloor> * (1 - r / 100)\<rfloor>
      in if amount > 0 then max 1 v else v)"

text \<open>The two example units prepared for a combat, the squire on the player's side.\<close>

definition example_combat :: combat where
  "example_combat = projr (prepare [example_squire] [example_apprentice] (new_Combat (\<lambda>n. 0) 1))"

section \<open>Arithmetic on finite numbers\<close>

lemma js_max_Num [simp]: "js_max (Num a) (Num b) = Num (max a b)"
  by (simp add: js_max_def max_def)

lemma js_min_Num [simp]: "js_min (Num a) (Num b) = Num (min a b)"
  by (simp add: js_min_def min_def)

lemma js_sub_Num [simp]: "js_sub (Num a) (Num b) = Num (a - b)"
  by (simp add: js_sub_def)

lemma js_gt_Num [simp]: "js_gt (Num a) (Num b) = (b < a)"
  by (simp add: js_gt_def)

lemma js_ge_Num [simp]: "js_ge (Num a) (Num b) = (b \<le> a)"
  by (simp add: js_ge_def)

lemma currentHp_gainMana [simp]: "currentHp (gainMana m u) = currentHp u"
  by (simp add: gainMana_def Let_def)

lemma mitigate_Num: "d + 100 \<noteq> 0 \<Longrightarrow>
  mitigate (Num a) (Num d) = Num (of_int \<lfloor>a * (1 - d / (d + 100))\<rfloor>)"
  by (simp add: mitigate_def Let_def)

section \<open>Properties of a unit\<close>

text \<open>
  C1 (fails on the code). The claim: the base physical damage that an attack of the
  engine passes to \<open>takeDamage\<close> is the attacker's effective attack, base attack plus
  attack bonus. The engine reads \<open>attacker.attack\<close>; the method \<open>attack()\<close> declared
  after the accessor of the same name has replaced it, so for every unit the value is
  the function object and not the number the accessor computes. For the squire
  (effective attack 50) attacking the apprentice, the logged physical damage and the
  hit points of the apprentice are \<open>NaN\<close>.
\<close>

theorem attack_reads_method_not_getter:
  "Unit_attack u = JFunction ''attack''
   \<and> Unit_attack u \<noteq> JNumber (attack_getter u)
   \<and> attack_getter example_squire = Num 50
   \<and> data (last (combatLog (Combat_attack 0 1 example_combat)))
        = Attack ''Squire'' ''Apprentice'' NaN (Num 0) NaN False NaN True
   \<and> currentHp (heap example_combat ! 1) = Num 400
   \<and> currentHp (heap (Combat_attack 0 1 example_combat) ! 1) = NaN"
proof -
  have "Unit_attack u = JFunction ''attack''"
    by (simp add: Unit_attack_def prototype_lookup_def Unit_class_body_def)
  moreover have "attack_getter example_squire = Num 50"
    by code_simp
  moreover have "data (last (combatLog (Combat_attack 0 1 example_combat)))
        = Attack ''Squire'' ''Apprentice'' NaN (Num 0) NaN False NaN True"
    by code_simp
  moreover have "currentHp (heap example_combat ! 1) = Num 400"
    by code_simp
  moreover have "currentHp (heap (Combat_attack 0 1 example_combat) ! 1) = NaN"
    by code_simp
  ultimately show ?thesis by simp
qed

theorem attack_reads_method_not_getter_witness:
  "Unit_attack example_squire = JFunction ''attack''
   \<and> attack_getter example_squire = Num 50
   \<and> currentHp (heap (Combat_attack 0 1 example_combat) ! 1) = NaN"
  using attack_reads_method_not_getter [of example_squire] by simp




text \<open>
  C10. For a living unit, a stun sets the remaining stun duration to the maximum
  (\<open>Math.max\<close>) of the remaining and the new duration, and a slow does the same for the
  slow fraction and for the slow duration; on finite numbers this is the greater of the
  two, so an effect is neither added up nor shortened. On a unit that is not alive both
  calls change nothing.
\<close>

theorem crowd_control_max:
  "(isAlive u \<longrightarrow>
      statusEffects (applyStun d u)
        = (statusEffects u)\<lparr> stunned := True,
             stunDuration := js_max (stunDuration (statusEffects u)) d \<rparr>
    \<and> statusEffects (applySlow a d u)
        = (statusEffects u)\<lparr> slowed := True,
             slowAmount := js_max (slowAmount (statusEffects u)) a,
             slowDuration := js_max (slowDuration (statusEffects u)) d \<rparr>)
   \<and> (isAlive u \<and> stunDuration (statusEffects u) = Num s \<and> d = Num n \<longrightarrow>
        stunDuration (statusEffects (applyStun d u)) = Num (max s n))
   \<and> (isAlive u \<and> slowAmount (statusEffects u) = Num q \<and> a = Num p
        \<and> slowDuration (statusEffects u) = Num t \<and> d = Num n \<longrightarrow>
        slowAmount (statusEffects (applySlow a d u)) = Num (max q p)
        \<and> slowDuration (statusEffects (applySlow a d u)) = Num (max t n))
   \<and> (\<not> isAlive u \<longrightarrow> applyStun d u = u \<and> applySlow a d u = u)"
  by (simp add: applyStun_def applySlow_def)


theorem crowd_control_max_witness:
  "isAlive (applyStun (Num 2) example_squire)
   \<and> stunDuration (statusEffects (applyStun (Num 1) (applyStun (Num 2) example_squire))) = Num 2
   \<and> slowAmount (statusEffects (applySlow (Num 0.3) (Num 3) example_squire)) = Num 0.3
   \<and> slowDuration (statusEffects (applySlow (Num 0.3) (Num 3) example_squire)) = Num 3
   \<and> \<not> isAlive (die example_squire)
   \<and> applyStun (Num 1) (die example_squire) = die example_squire
   \<and> applySlow (Num 0.3) (Num 3) (die example_squire) = die example_squire"
proof -
  have a: "isAlive (applyStun (Num 2) example_squire)" by code_simp
  have b: "stunDuration (statusEffects (applyStun (Num 2) example_squire)) = Num 2" by code_simp
  have c: "isAlive example_squire" by code_simp
  have d: "slowAmount (statusEffects example_squire) = Num 0" by code_simp
  have e: "slowDuration (statusEffects example_squire) = Num 0" by code_simp
  have f: "\<not> isAlive (die example_squire)" by code_simp
  show ?thesis
    using a b c d e f
      crowd_control_max [of "applyStun (Num 2) example_squire" "Num 1" "Num 0" 2 1 0 0 0]
      crowd_control_max [of example_squire "Num 3" "Num 0.3" 0 3 0 "0.3" 0]
      crowd_control_max [of "die example_squire" "Num 1" "Num 0.3" 0 0 0 0 0]
      crowd_control_max [of "die example_squire" "Num 3" "Num 0.3" 0 0 0 0 0]
    by simp
qed

section \<open>The preparation of a combat\<close>

declare run_loop.simps [simp del]

text \<open>
  A unit as the constructor builds it: its template exists, its star level is 1, 2 or
  3; the bonus to its hit points is a finite number that is not negative.
\<close>

definition valid_unit :: "unit \<Rightarrow> bool" where
  "valid_unit u \<longleftrightarrow> map_of UNITS (templateId u) \<noteq> None \<and> starLevel u \<in> {1, 2, 3}
     \<and> (case hpBonus (buffs u) of Num b \<Rightarrow> 0 \<le> b | _ \<Rightarrow> False)"

text \<open>Hit points and state of the unit at an address: what \<open>isAlive\<close> reads.\<close>

definition vitals :: "combat \<Rightarrow> nat \<Rightarrow> jsnum \<times> UnitState" where
  "vitals c b = (currentHp (heap c ! b), state (heap c ! b))"

lemma nth_upd: "heap (upd a f c) ! b = (if b = a \<and> a < length (heap c) then f (heap c ! a) else heap c ! b)"
  by (cases "a < length (heap c)") (auto simp: upd_def list_update_beyond)

lemma length_upd [simp]: "length (heap (upd a f c)) = length (heap c)"
  by (simp add: upd_def)

lemma heap_log_event [simp]: "heap (log_event d c) = heap c"
  by (simp add: log_event_def)

lemma vitals_upd:
  "(\<And>u. currentHp (f u) = currentHp u \<and> state (f u) = state u) \<Longrightarrow> vitals (upd a f c) = vitals c"
  by (rule ext) (simp add: vitals_def nth_upd)

lemma vitals_log_event [simp]: "vitals (log_event d c) = vitals c"
  by (rule ext) (simp add: vitals_def)

lemma vitals_fold: "(\<And>x c. vitals (f x c) = vitals c) \<Longrightarrow> vitals (fold f xs c) = vitals c"
  by (induction xs arbitrary: c) simp_all

lemma isAlive_vitals: "isAlive (heap c ! b) = (js_gt (fst (vitals c b)) (Num 0) \<and> snd (vitals c b) \<noteq> DEAD)"
  by (simp add: isAlive_def vitals_def)

lemma alive_of_cong:
  "vitals c' = vitals c \<Longrightarrow> alive_of c' as = alive_of c as"
  by (simp add: alive_of_def isAlive_vitals)

lemma template_hp: "map_of UNITS tid = Some t \<Longrightarrow> 400 \<le> t_hp t"
  unfolding UNITS_def by (auto simp: mk_template_def split: if_splits)

lemma star_multiplier: "STAR_MULTIPLIERS s = Some m \<Longrightarrow> 1 \<le> m"
  by (auto simp: STAR_MULTIPLIERS_def split: if_splits)

lemma clone_valid:
  assumes "valid_unit u"
  shows "\<exists>k. clone n u = Inr k \<and> js_gt (effectiveMaxHp k) (Num 0)"
proof -
  from assms obtain t where t: "map_of UNITS (templateId u) = Some t"
    by (auto simp: valid_unit_def)
  from assms have "starLevel u = 1 \<or> starLevel u = 2 \<or> starLevel u = 3"
    by (auto simp: valid_unit_def)
  then have "STAR_MULTIPLIERS (starLevel u)
               = Some (if starLevel u = 1 then 1.0 else if starLevel u = 2 then 1.8 else 3.2)"
    unfolding STAR_MULTIPLIERS_def by auto
  then obtain m where m: "STAR_MULTIPLIERS (starLevel u) = Some m"
    by blast
  from assms obtain b where b: "hpBonus (buffs u) = Num b" "0 \<le> b"
    by (auto simp: valid_unit_def split: jsnum.splits)
  have "400 \<le> t_hp t * m"
  proof -
    have "400 * 1 \<le> t_hp t * m"
      using template_hp [OF t] star_multiplier [OF m] by (intro mult_mono) auto
    then show ?thesis by simp
  qed
  then have "400 \<le> \<lfloor>t_hp t * m\<rfloor>" by (simp add: le_floor_iff)
  then have "0 < real_of_int \<lfloor>t_hp t * m\<rfloor> + b" using b(2) by linarith
  then show ?thesis
    using t m b by (simp add: clone_def new_Unit_def effectiveMaxHp_def js_gt_def)
qed

lemma clone_all_valid:
  assumes "\<forall>u \<in> set us. valid_unit u"
  shows "\<exists>ks. clone_all n us = Inr (ks, n + length us) \<and> length ks = length us
           \<and> (\<forall>k \<in> set ks. js_gt (effectiveMaxHp k) (Num 0))"
  using assms
proof (induction us arbitrary: n)
  case Nil
  then show ?case by simp
next
  case (Cons u us)
  from Cons.prems obtain k where k: "clone n u = Inr k" "js_gt (effectiveMaxHp k) (Num 0)"
    using clone_valid [of u n] by auto
  from Cons.IH [of "Suc n"] Cons.prems obtain ks where
    ks: "clone_all (Suc n) us = Inr (ks, Suc n + length us)" "length ks = length us"
        "\<forall>k \<in> set ks. js_gt (effectiveMaxHp k) (Num 0)"
    by auto
  show ?case using k ks by simp
qed

lemma nth_fold_upd:
  "distinct as \<Longrightarrow> heap (fold (\<lambda>a. upd a f) as c) ! b
     = (if b \<in> set as \<and> b < length (heap c) then f (heap c ! b) else heap c ! b)"
proof (induction as arbitrary: c)
  case Nil
  then show ?case by simp
next
  case (Cons x xs)
  then show ?case by (auto simp: nth_upd)
qed

lemma length_fold_upd [simp]: "length (heap (fold (\<lambda>a. upd a f) as c)) = length (heap c)"
  by (induction as arbitrary: c) simp_all


lemma vital_apply_bonus_entry:
  "currentHp (apply_bonus_entry e u) = currentHp u \<and> state (apply_bonus_entry e u) = state u"
  by (simp add: apply_bonus_entry_def Let_def split: option.splits)

lemma vital_applyBonusToUnit:
  "currentHp (applyBonusToUnit bonus u) = currentHp u \<and> state (applyBonusToUnit bonus u) = state u"
  unfolding applyBonusToUnit_def
  by (induction bonus arbitrary: u) (simp_all add: vital_apply_bonus_entry)

lemma vitals_apply_trait [simp]: "vitals (apply_trait units tc c) = vitals c"
  by (simp add: apply_trait_def Let_def vitals_fold vitals_upd vital_applyBonusToUnit
        split: option.splits)

lemma vitals_applyTraitBonuses [simp]: "vitals (applyTraitBonuses units c) = vitals c"
  by (simp add: applyTraitBonuses_def Let_def vitals_fold vitals_upd resetBuffs_def)

lemma ctrl_apply_trait [simp]: "ctrl (apply_trait units tc c) = ctrl c"
  by (simp add: apply_trait_def Let_def ctrl_fold split: option.splits)

lemma ctrl_applyTraitBonuses [simp]: "ctrl (applyTraitBonuses units c) = ctrl c"
  by (simp add: applyTraitBonuses_def Let_def ctrl_fold)

lemma ctrl_initializeUnits [simp]: "ctrl (initializeUnits c) = ctrl c"
  by (simp add: initializeUnits_def ctrl_fold)

lemma vitals_updateOccupiedPositions [simp]: "vitals (updateOccupiedPositions c) = vitals c"
  by (rule ext) (simp add: vitals_def updateOccupiedPositions_def)

lemma isAlive_resetForCombat:
  "isAlive (resetForCombat u) = js_gt (effectiveMaxHp u) (Num 0)"
  by (simp add: isAlive_def resetForCombat_def)

text \<open>What the preparation establishes for rosters of valid units.\<close>

lemma prepare_valid:
  assumes vp: "\<forall>u \<in> set players. valid_unit u" and ve: "\<forall>u \<in> set enemies. valid_unit u"
  shows "\<exists>c0. prepare players enemies c = Inr c0 \<and> isRunning c0 \<and> tickCount c0 = 0
           \<and> result c0 = new_CombatResult
           \<and> playerUnits c0 = [0 ..< length players]
           \<and> enemyUnits c0 = [length players ..< length players + length enemies]
           \<and> length (heap c0) = length players + length enemies
           \<and> (\<forall>b < length (heap c0). isAlive (heap c0 ! b))"
proof -
  from clone_all_valid [OF vp] obtain ps where
    ps: "clone_all (nextUnitId c) players = Inr (ps, nextUnitId c + length players)"
        "length ps = length players" "\<forall>k \<in> set ps. js_gt (effectiveMaxHp k) (Num 0)"
    by blast
  from clone_all_valid [OF ve] obtain es where
    es: "clone_all (nextUnitId c + length players) enemies
           = Inr (es, nextUnitId c + length players + length enemies)"
        "length es = length enemies" "\<forall>k \<in> set es. js_gt (effectiveMaxHp k) (Num 0)"
    by blast
  define h where "h = map (\<lambda>u. u\<lparr> ownerId := Some ''player'' \<rparr>) ps
                     @ map (\<lambda>u. u\<lparr> ownerId := Some ''enemy'' \<rparr>) es"
  define c1 where "c1 = c\<lparr> heap := h, playerUnits := [0 ..< length ps],
      enemyUnits := [length ps ..< length ps + length es],
      nextUnitId := nextUnitId c + length players + length enemies, isRunning := True,
      tickCount := 0, combatLog := [], result := new_CombatResult \<rparr>"
  define c2 where "c2 = initializeUnits c1"
  define c3 where "c3 = applyTraitBonuses (playerUnits c2) c2"
  define c4 where "c4 = applyTraitBonuses (enemyUnits c3) c3"
  define c5 where "c5 = updateOccupiedPositions c4"
  define c0 where "c0 = log_event (CombatStart (length (playerUnits c5)) (length (enemyUnits c5))) c5"
  have prep: "prepare players enemies c = Inr c0"
    using ps(1) es(1)
    by (simp add: prepare_def Let_def c0_def c5_def c4_def c3_def c2_def c1_def h_def ps(2) es(2))
  have hlen: "length h = length players + length enemies"
    by (simp add: h_def ps(2) es(2))
  have hready: "js_gt (effectiveMaxHp (h ! b)) (Num 0)" if "b < length h" for b
  proof -
    have "\<forall>k \<in> set h. js_gt (effectiveMaxHp k) (Num 0)"
      using ps(3) es(3) by (auto simp: h_def effectiveMaxHp_def)
    then show ?thesis using that by simp
  qed
  have ctrl0: "ctrl c0 = ctrl c1"
    by (simp add: c0_def c5_def c4_def c3_def c2_def)
  have c1_fields: "isRunning c1" "tickCount c1 = 0" "result c1 = new_CombatResult"
    "playerUnits c1 = [0 ..< length players]"
    "enemyUnits c1 = [length players ..< length players + length enemies]"
    "length (heap c1) = length players + length enemies" "heap c1 = h"
    by (simp_all add: c1_def ps(2) es(2) hlen)
  have roster: "playerUnits c1 @ enemyUnits c1 = [0 ..< length h]"
    using c1_fields hlen by (simp add: upt_add_eq_append [symmetric])
  have alive2: "isAlive (heap c2 ! b)" if "b < length h" for b
  proof -
    have "heap c2 ! b = resetForCombat (h ! b)"
      unfolding c2_def initializeUnits_def roster
      using that by (simp add: nth_fold_upd c1_fields(7))
    then show ?thesis using hready [OF that] by (simp add: isAlive_resetForCombat)
  qed
  have vit: "vitals c0 = vitals c2"
    by (simp add: c0_def c5_def c4_def c3_def)
  have alive0: "isAlive (heap c0 ! b)" if "b < length h" for b
    using alive2 [OF that] vit by (simp add: isAlive_vitals)
  show ?thesis
    using prep ctrlD [OF ctrl0] c1_fields alive0 hlen by auto
qed

lemma isOver_tickCount [simp]: "isOver (c\<lparr> tickCount := n \<rparr>) = isOver c"
  by (simp add: isOver_def alive_of_def)

lemma tick_over:
  "isRunning c \<Longrightarrow> isOver c \<Longrightarrow> tick c = determinWinner (c\<lparr> tickCount := Suc (tickCount c) \<rparr>)"
  by (simp add: tick_def Let_def)

lemma isRunning_endCombat [simp]: "\<not> isRunning (endCombat w d c)"
  by (simp add: endCombat_def stop_def log_event_def Let_def)

lemma isRunning_determinWinner [simp]: "\<not> isRunning (determinWinner c)"
  by (simp add: determinWinner_def Let_def)

lemma heap_endCombat [simp]: "heap (endCombat w d c) = heap c"
  by (simp add: endCombat_def stop_def log_event_def Let_def)

lemma heap_determinWinner [simp]: "heap (determinWinner c) = heap c"
  by (simp add: determinWinner_def Let_def)

lemma calculateDamage_sum:
  "calculateDamage c as = 2 + sum_list (map (\<lambda>a. starLevel (heap c ! a)) as)"
proof -
  have "fold (\<lambda>a damage. damage + starLevel (heap c ! a)) as n
          = n + sum_list (map (\<lambda>a. starLevel (heap c ! a)) as)" for n
    by (induction as arbitrary: n) simp_all
  then show ?thesis by (simp add: calculateDamage_def)
qed

lemma run_loop_over:
  assumes "isRunning c" "isOver c" "tickCount c < maxTicks"
  shows "run_loop maxTicks c = determinWinner (c\<lparr> tickCount := Suc (tickCount c) \<rparr>)"
proof -
  have "run_loop maxTicks c = run_loop maxTicks (tick c)"
    using assms by (subst run_loop.simps) simp
  also have "\<dots> = tick c"
    using assms by (subst run_loop.simps) (simp add: tick_over)
  finally show ?thesis using assms by (simp add: tick_over)
qed

lemma alive_of_all:
  "\<forall>a \<in> set as. isAlive (heap c ! a) \<Longrightarrow> alive_of c as = as"
  by (simp add: alive_of_def)


lemma alive_of_fields [simp]:
  "alive_of (c\<lparr> tickCount := n \<rparr>) as = alive_of c as"
  "alive_of (c\<lparr> isRunning := b \<rparr>) as = alive_of c as"
  "alive_of (c\<lparr> result := r \<rparr>) as = alive_of c as"
  "alive_of (c\<lparr> combatLog := l \<rparr>) as = alive_of c as"
  by (simp_all add: alive_of_def)

lemma runSync_over_at_start:
  assumes prep: "prepare players enemies c = Inr c0"
    and run: "isRunning c0" and t0: "tickCount c0 = 0" and over: "isOver c0"
    and m: "1 \<le> maxTicks"
  shows "runSync players enemies maxTicks c = Inr (determinWinner (c0\<lparr> tickCount := 1 \<rparr>))"
proof -
  have "run_loop maxTicks c0 = determinWinner (c0\<lparr> tickCount := Suc (tickCount c0) \<rparr>)"
    using run over t0 m by (intro run_loop_over) simp_all
  then show ?thesis
    using prep t0 by (simp add: runSync_def Let_def)
qed

section \<open>Empty rosters\<close>

text \<open>
  C5 (amended). The claim: with an empty enemy roster and a player roster that is not
  empty the synchronous combat has \<open>totalTicks = 0\<close> and winner \<open>player\<close>, likewise
  for the other side, and with both rosters empty the winner is \<open>draw\<close> with no damage;
  the tick loop does not run. In the code the loop runs one tick: the tick counts
  itself, finds the combat over before any unit acts and ends it. So for rosters of
  valid units, one of them empty, and a bound of at least one tick: \<open>totalTicks = 1\<close>,
  the units are as the preparation left them, the log gains the end entry only, the
  winner is the side that has units (\<open>draw\<close> when neither has) and the damage is
  recorded against the empty side only.
\<close>

theorem empty_roster_ends_at_first_tick:
  assumes vp: "\<forall>u \<in> set players. valid_unit u" and ve: "\<forall>u \<in> set enemies. valid_unit u"
    and m: "1 \<le> maxTicks" and empty: "players = [] \<or> enemies = []"
  shows "\<exists>c0 c'. prepare players enemies c = Inr c0
           \<and> runSync players enemies maxTicks c = Inr c'
           \<and> totalTicks (result c') = 1 \<and> tickCount c' = 1 \<and> \<not> isRunning c'
           \<and> heap c' = heap c0
           \<and> combatLog c' = combatLog c0
                @ [\<lparr> tick_no = 1, data = CombatEnd (the (winner (result c')))
                       (damageToPlayer (result c') + damageToEnemy (result c')) 1
                       (length players) (length enemies) \<rparr>]
           \<and> winner (result c')
                = Some (if players = [] \<and> enemies = [] then ''draw''
                        else if enemies = [] then ''player'' else ''enemy'')
           \<and> damageToPlayer (result c')
                = (if players = [] \<and> enemies \<noteq> []
                   then 2 + sum_list (map (\<lambda>a. starLevel (heap c' ! a)) (enemyUnits c')) else 0)
           \<and> damageToEnemy (result c')
                = (if enemies = [] \<and> players \<noteq> []
                   then 2 + sum_list (map (\<lambda>a. starLevel (heap c' ! a)) (playerUnits c')) else 0)"
proof -
  from prepare_valid [OF vp ve, of c] obtain c0 where
    c0: "prepare players enemies c = Inr c0" "isRunning c0" "tickCount c0 = 0"
        "result c0 = new_CombatResult" "playerUnits c0 = [0 ..< length players]"
        "enemyUnits c0 = [length players ..< length players + length enemies]"
        "length (heap c0) = length players + length enemies"
        "\<forall>b < length (heap c0). isAlive (heap c0 ! b)"
    by blast
  have ap: "alive_of c0 (playerUnits c0) = playerUnits c0"
    using c0 by (intro alive_of_all) simp
  have ae: "alive_of c0 (enemyUnits c0) = enemyUnits c0"
    using c0 by (intro alive_of_all) simp
  have over: "isOver c0"
    using empty ap ae c0(5,6) by (auto simp: isOver_def)
  have pE: "playerUnits c0 = [] \<longleftrightarrow> players = []" and eE: "enemyUnits c0 = [] \<longleftrightarrow> enemies = []"
    and lp: "length (playerUnits c0) = length players"
    and le: "length (enemyUnits c0) = length enemies"
    using c0(5,6) by auto
  let ?c' = "determinWinner (c0\<lparr> tickCount := 1 \<rparr>)"
  have rs: "runSync players enemies maxTicks c = Inr ?c'"
    by (rule runSync_over_at_start [OF c0(1) c0(2) c0(3) over m])
  have "totalTicks (result ?c') = 1 \<and> tickCount ?c' = 1 \<and> \<not> isRunning ?c'
           \<and> heap ?c' = heap c0
           \<and> combatLog ?c' = combatLog c0
                @ [\<lparr> tick_no = 1, data = CombatEnd (the (winner (result ?c')))
                       (damageToPlayer (result ?c') + damageToEnemy (result ?c')) 1
                       (length players) (length enemies) \<rparr>]
           \<and> winner (result ?c')
                = Some (if players = [] \<and> enemies = [] then ''draw''
                        else if enemies = [] then ''player'' else ''enemy'')
           \<and> damageToPlayer (result ?c')
                = (if players = [] \<and> enemies \<noteq> []
                   then 2 + sum_list (map (\<lambda>a. starLevel (heap ?c' ! a)) (enemyUnits ?c')) else 0)
           \<and> damageToEnemy (result ?c')
                = (if enemies = [] \<and> players \<noteq> []
                   then 2 + sum_list (map (\<lambda>a. starLevel (heap ?c' ! a)) (playerUnits ?c')) else 0)"
    using empty pE eE lp le c0(4)
    by (auto simp: determinWinner_def endCombat_def stop_def log_event_def Let_def
          new_CombatResult_def calculateDamage_sum ap ae)
  with c0(1) rs show ?thesis by blast
qed

text \<open>
  C5, the counterexample: the squire against an empty enemy roster wins with
  \<open>totalTicks = 1\<close>, not 0.
\<close>

theorem empty_roster_zero_ticks_counterexample:
  "(case runSync [example_squire] [] 1000 (new_Combat (\<lambda>n. 0) 1) of
      Inl e \<Rightarrow> False
    | Inr c' \<Rightarrow> winner (result c') = Some ''player'' \<and> totalTicks (result c') = 1
                \<and> totalTicks (result c') \<noteq> 0 \<and> tickCount c' = 1)"
  by code_simp

theorem empty_roster_ends_at_first_tick_witness:
  "\<exists>c0 c'. prepare [example_squire] [] (new_Combat (\<lambda>n. 0) 1) = Inr c0
     \<and> runSync [example_squire] [] 1000 (new_Combat (\<lambda>n. 0) 1) = Inr c'
     \<and> totalTicks (result c') = 1 \<and> heap c' = heap c0
     \<and> winner (result c') = Some ''player''"
proof -
  have v: "\<forall>u \<in> set [example_squire]. valid_unit u" by code_simp
  have e: "\<forall>u \<in> set ([] :: unit list). valid_unit u" by simp
  from empty_roster_ends_at_first_tick [OF v e, of 1000 "new_Combat (\<lambda>n. 0) 1"]
  show ?thesis by auto
qed

section \<open>The bounded loop and the result\<close>

lemma prepare_ctrl:
  assumes "prepare players enemies c = Inr c0"
  shows "isRunning c0 \<and> tickCount c0 = 0 \<and> result c0 = new_CombatResult"
proof -
  from assms obtain c1 where
    c0: "c0 = (let c2 = initializeUnits c1;
                   c3 = applyTraitBonuses (playerUnits c2) c2;
                   c4 = applyTraitBonuses (enemyUnits c3) c3;
                   c5 = updateOccupiedPositions c4
               in log_event (CombatStart (length (playerUnits c5)) (length (enemyUnits c5))) c5)"
    and c1: "isRunning c1" "tickCount c1 = 0" "result c1 = new_CombatResult"
    by (auto simp: prepare_def Let_def split: sum.splits prod.splits)
  have "ctrl c0 = ctrl c1"
    by (simp add: c0 Let_def)
  from ctrlD [OF this] c1 show ?thesis by simp
qed

lemma tick_stopped: "\<not> isRunning c \<Longrightarrow> tick c = c"
  by (simp add: tick_def)

lemma ctrl_tick_running:
  assumes "isRunning c" "\<not> isOver c"
  shows "ctrl (tick c) = ctrl (c\<lparr> tickCount := Suc (tickCount c) \<rparr>)"
proof -
  let ?c1 = "c\<lparr> tickCount := Suc (tickCount c) \<rparr>"
  let ?sh = "shuffleArray (alive_of ?c1 (playerUnits ?c1) @ alive_of ?c1 (enemyUnits ?c1))
               (updateOccupiedPositions ?c1)"
  have "tick c = fold (process_unit (Num (COMBAT_TICK_MS / 1000))
        (alive_of ?c1 (playerUnits ?c1)) (alive_of ?c1 (enemyUnits ?c1))) (fst ?sh) (snd ?sh)"
    using assms by (simp add: tick_def Let_def case_prod_beta)
  then show ?thesis
    by (simp add: ctrl_units_loop)
qed

lemma isOver_endCombat [simp]: "isOver (endCombat w d c) = isOver c"
  by (simp add: isOver_def endCombat_def stop_def log_event_def Let_def)

lemma isOver_determinWinner [simp]: "isOver (determinWinner c) = isOver c"
  by (simp add: determinWinner_def Let_def)

text \<open>The result of a combat that has ended: what \<open>endCombat\<close> leaves behind.\<close>

definition ended_ok :: "combat \<Rightarrow> bool" where
  "ended_ok c \<longleftrightarrow>
     totalTicks (result c) = tickCount c
     \<and> survivingPlayerUnits (result c) = alive_of c (playerUnits c)
     \<and> survivingEnemyUnits (result c) = alive_of c (enemyUnits c)
     \<and> (winner (result c) = Some ''player''
           \<and> damageToEnemy (result c)
                = 2 + sum_list (map (\<lambda>a. starLevel (heap c ! a)) (survivingPlayerUnits (result c)))
           \<and> damageToPlayer (result c) = 0
         \<or> winner (result c) = Some ''enemy''
           \<and> damageToPlayer (result c)
                = 2 + sum_list (map (\<lambda>a. starLevel (heap c ! a)) (survivingEnemyUnits (result c)))
           \<and> damageToEnemy (result c) = 0
         \<or> winner (result c) = Some ''draw''
           \<and> damageToPlayer (result c) = 0 \<and> damageToEnemy (result c) = 0)"

definition result_inv :: "combat \<Rightarrow> bool" where
  "result_inv c \<longleftrightarrow> (if isRunning c then result c = new_CombatResult else ended_ok c)"

lemma ended_ok_determinWinner:
  "result c = new_CombatResult \<Longrightarrow> ended_ok (determinWinner c)"
  by (auto simp: ended_ok_def determinWinner_def endCombat_def stop_def log_event_def Let_def
        new_CombatResult_def calculateDamage_sum)

lemma ended_ok_forced_draw:
  "result c = new_CombatResult \<Longrightarrow> ended_ok (endCombat ''draw'' 0 c)"
  by (auto simp: ended_ok_def endCombat_def stop_def log_event_def Let_def new_CombatResult_def)

lemma result_inv_tick: "result_inv c \<Longrightarrow> result_inv (tick c)"
proof (cases "isRunning c")
  case False
  then show "result_inv c \<Longrightarrow> result_inv (tick c)" by (simp add: tick_stopped)
next
  case run: True
  assume inv: "result_inv c"
  then have res: "result c = new_CombatResult" using run by (simp add: result_inv_def)
  show "result_inv (tick c)"
  proof (cases "isOver c")
    case True
    then show ?thesis
      using run res by (simp add: tick_over result_inv_def ended_ok_determinWinner)
  next
    case False
    from ctrlD [OF ctrl_tick_running [OF run False]] run res
    show ?thesis by (simp add: result_inv_def)
  qed
qed

lemma over_inv_tick: "isRunning c \<or> isOver c \<Longrightarrow> isRunning (tick c) \<or> isOver (tick c)"
proof (cases "isRunning c")
  case False
  then show "isRunning c \<or> isOver c \<Longrightarrow> isRunning (tick c) \<or> isOver (tick c)"
    by (simp add: tick_stopped)
next
  case run: True
  show "isRunning (tick c) \<or> isOver (tick c)"
  proof (cases "isOver c")
    case True
    then show ?thesis using run by (simp add: tick_over)
  next
    case False
    from ctrlD(1) [OF ctrl_tick_running [OF run False]] run show ?thesis by simp
  qed
qed

lemma run_loop_props:
  assumes "tickCount c \<le> maxTicks" "result_inv c" "isRunning c \<or> isOver c"
  shows "tickCount (run_loop maxTicks c) \<le> maxTicks
       \<and> result_inv (run_loop maxTicks c)
       \<and> (isRunning (run_loop maxTicks c) \<or> isOver (run_loop maxTicks c))
       \<and> (isRunning (run_loop maxTicks c) \<longrightarrow> tickCount (run_loop maxTicks c) = maxTicks)"
  using assms
proof (induction maxTicks c rule: run_loop.induct)
  case (1 maxTicks c)
  show ?case
  proof (cases "isRunning c \<and> tickCount c < maxTicks")
    case True
    then have step: "run_loop maxTicks c = run_loop maxTicks (tick c)"
      by (subst run_loop.simps) auto
    have "tickCount (tick c) \<le> maxTicks"
      using True by (simp add: tickCount_tick)
    with "1.IH" [OF True] "1.prems" show ?thesis
      unfolding step by (simp add: result_inv_tick over_inv_tick)
  next
    case False
    then have "run_loop maxTicks c = c"
      by (subst run_loop.simps) auto
    with False "1.prems" show ?thesis by auto
  qed
qed


text \<open>
  C8. For every pair of rosters and every bound \<open>maxTicks\<close>: when cloning a roster
  throws, \<open>runSync\<close> throws that error before any tick; otherwise it returns, the loop
  has run at most \<open>maxTicks\<close> ticks (each tick of a running combat advances the
  counter by one, see \<open>tickCount_tick\<close>, and the loop is a total function), the combat
  has ended with \<open>totalTicks\<close> equal to the number of ticks run, and if the loop stops
  at the bound while both sides still have living units, the winner is \<open>draw\<close> and no
  damage is recorded.
\<close>

theorem runSync_bounded:
  "(case prepare players enemies c of
      Inl e \<Rightarrow> runSync players enemies maxTicks c = Inl e
    | Inr c0 \<Rightarrow>
        (\<exists>c'. runSync players enemies maxTicks c = Inr c'
           \<and> tickCount (run_loop maxTicks c0) \<le> maxTicks
           \<and> tickCount c' = tickCount (run_loop maxTicks c0)
           \<and> totalTicks (result c') = tickCount c'
           \<and> \<not> isRunning c'
           \<and> (tickCount (run_loop maxTicks c0) = maxTicks \<and> \<not> isOver (run_loop maxTicks c0)
                \<longrightarrow> winner (result c') = Some ''draw''
                    \<and> damageToPlayer (result c') = 0 \<and> damageToEnemy (result c') = 0)))"
proof (cases "prepare players enemies c")
  case (Inl e)
  then show ?thesis by (simp add: runSync_def)
next
  case (Inr c0)
  from prepare_ctrl [OF Inr] have c0: "isRunning c0" "tickCount c0 = 0" "result c0 = new_CombatResult"
    by simp_all
  define L where "L = run_loop maxTicks c0"
  have "tickCount c0 \<le> maxTicks" "result_inv c0" "isRunning c0 \<or> isOver c0"
    using c0 by (simp_all add: result_inv_def)
  from run_loop_props [OF this] have L:
    "tickCount L \<le> maxTicks" "result_inv L" "isRunning L \<or> isOver L"
    "isRunning L \<longrightarrow> tickCount L = maxTicks"
    by (simp_all add: L_def)
  define c' where "c' = (if tickCount L \<ge> maxTicks \<and> isRunning L then endCombat ''draw'' 0 L else L)"
  have rs: "runSync players enemies maxTicks c = Inr c'"
    using Inr by (simp add: runSync_def Let_def c'_def L_def)
  have "tickCount c' = tickCount L \<and> totalTicks (result c') = tickCount c' \<and> \<not> isRunning c'
        \<and> (tickCount L = maxTicks \<and> \<not> isOver L
              \<longrightarrow> winner (result c') = Some ''draw''
                  \<and> damageToPlayer (result c') = 0 \<and> damageToEnemy (result c') = 0)"
  proof (cases "isRunning L")
    case True
    with L have eq: "c' = endCombat ''draw'' 0 L" and res: "result L = new_CombatResult"
      by (simp_all add: c'_def result_inv_def)
    show ?thesis
      unfolding eq using res
      by (simp add: endCombat_def stop_def log_event_def Let_def new_CombatResult_def)
  next
    case False
    with L have "c' = L" "ended_ok L" "isOver L"
      by (simp_all add: c'_def result_inv_def)
    with False show ?thesis by (simp add: ended_ok_def)
  qed
  with rs L(1) Inr show ?thesis by (simp add: L_def)
qed

theorem runSync_bounded_witness:
  "\<exists>k c'. prepare [example_squire\<lparr> pos_x := None \<rparr>] [example_apprentice] (new_Combat (\<lambda>n. 0) 1) = Inr k
     \<and> runSync [example_squire\<lparr> pos_x := None \<rparr>] [example_apprentice] 5 (new_Combat (\<lambda>n. 0) 1) = Inr c'
     \<and> tickCount c' = 5 \<and> totalTicks (result c') = 5 \<and> \<not> isOver (run_loop 5 k)
     \<and> winner (result c') = Some ''draw''"
proof -
  let ?p = "[example_squire\<lparr> pos_x := None \<rparr>]"
  let ?n = "new_Combat (\<lambda>n. 0) 1"
  define k where "k = projr (prepare ?p [example_apprentice] ?n)"
  have "\<not> isl (prepare ?p [example_apprentice] ?n)" by code_simp
  then have p: "prepare ?p [example_apprentice] ?n = Inr k" by (simp add: k_def)
  have t: "tickCount (run_loop 5 k) = 5" unfolding k_def by code_simp
  have o: "\<not> isOver (run_loop 5 k)" unfolding k_def by code_simp
  from runSync_bounded [where players = ?p and enemies = "[example_apprentice]" and c = ?n
      and maxTicks = 5]
  obtain c' where
    "runSync ?p [example_apprentice] 5 ?n = Inr c'" "tickCount c' = tickCount (run_loop 5 k)"
    "totalTicks (result c') = tickCount c'"
    "winner (result c') = Some ''draw''"
    unfolding p using t o by auto
  with p t o show ?thesis by auto
qed

text \<open>
  C9. Whenever \<open>runSync\<close> returns, the combat has ended with winner \<open>player\<close>,
  \<open>enemy\<close> or \<open>draw\<close>. With winner \<open>player\<close> the damage recorded against the
  enemy is 2 plus the star levels of the surviving player units, and none is recorded
  against the player; likewise for winner \<open>enemy\<close>; with a draw neither damage is
  other than 0. The survivors of the result are the living units of the rosters.
\<close>

theorem runSync_damage:
  assumes "runSync players enemies maxTicks c = Inr c'"
  shows "survivingPlayerUnits (result c') = alive_of c' (playerUnits c')
       \<and> survivingEnemyUnits (result c') = alive_of c' (enemyUnits c')
       \<and> (winner (result c') = Some ''player'' \<or> winner (result c') = Some ''enemy''
            \<or> winner (result c') = Some ''draw'')
       \<and> (winner (result c') = Some ''player'' \<longrightarrow>
            damageToEnemy (result c')
              = 2 + sum_list (map (\<lambda>a. starLevel (heap c' ! a)) (survivingPlayerUnits (result c')))
            \<and> damageToPlayer (result c') = 0)
       \<and> (winner (result c') = Some ''enemy'' \<longrightarrow>
            damageToPlayer (result c')
              = 2 + sum_list (map (\<lambda>a. starLevel (heap c' ! a)) (survivingEnemyUnits (result c')))
            \<and> damageToEnemy (result c') = 0)
       \<and> (winner (result c') = Some ''draw'' \<longrightarrow>
            damageToPlayer (result c') = 0 \<and> damageToEnemy (result c') = 0)"
proof -
  from assms obtain c0 where prep: "prepare players enemies c = Inr c0"
    by (auto simp: runSync_def split: sum.splits)
  from prepare_ctrl [OF prep] have c0: "isRunning c0" "tickCount c0 = 0" "result c0 = new_CombatResult"
    by simp_all
  define L where "L = run_loop maxTicks c0"
  have "tickCount c0 \<le> maxTicks" "result_inv c0" "isRunning c0 \<or> isOver c0"
    using c0 by (simp_all add: result_inv_def)
  from run_loop_props [OF this] have L: "result_inv L"
    by (simp_all add: L_def)
  have c': "c' = (if tickCount L \<ge> maxTicks \<and> isRunning L then endCombat ''draw'' 0 L else L)"
    using assms prep by (auto simp: runSync_def Let_def L_def)
  have stopped: "isRunning L \<Longrightarrow> tickCount L \<ge> maxTicks"
    using run_loop_props [OF \<open>tickCount c0 \<le> maxTicks\<close> \<open>result_inv c0\<close> \<open>isRunning c0 \<or> isOver c0\<close>]
    by (simp add: L_def)
  have "ended_ok c'"
  proof (cases "isRunning L")
    case True
    with L stopped show ?thesis
      by (simp add: c' result_inv_def ended_ok_forced_draw)
  next
    case False
    with L show ?thesis by (simp add: c' result_inv_def)
  qed
  then show ?thesis
    by (auto simp: ended_ok_def)
qed

theorem runSync_damage_witness:
  "\<exists>c'. runSync [example_squire] [example_apprentice] 1000 (new_Combat (\<lambda>n. 0) 1) = Inr c'
     \<and> winner (result c') = Some ''enemy'' \<and> damageToPlayer (result c') = 3
     \<and> damageToEnemy (result c') = 0 \<and> survivingEnemyUnits (result c') = [1]
     \<and> starLevel (heap c' ! 1) = 1"
proof -
  define k where "k = projr (runSync [example_squire] [example_apprentice] 1000 (new_Combat (\<lambda>n. 0) 1))"
  have "\<not> isl (runSync [example_squire] [example_apprentice] 1000 (new_Combat (\<lambda>n. 0) 1))"
    by code_simp
  then have r: "runSync [example_squire] [example_apprentice] 1000 (new_Combat (\<lambda>n. 0) 1) = Inr k"
    by (simp add: k_def)
  have w: "winner (result k) = Some ''enemy''" unfolding k_def by code_simp
  have s: "survivingEnemyUnits (result k) = [1]" unfolding k_def by code_simp
  have l: "starLevel (heap k ! 1) = 1" unfolding k_def by code_simp
  from runSync_damage [OF r] w
  have "damageToPlayer (result k)
          = 2 + sum_list (map (\<lambda>a. starLevel (heap k ! a)) (survivingEnemyUnits (result k)))
        \<and> damageToEnemy (result k) = 0"
    by blast
  then have "damageToPlayer (result k) = 3 \<and> damageToEnemy (result k) = 0"
    unfolding s using l by simp
  with r w s l show ?thesis by blast
qed

section \<open>Trait counts and the bounds of hit points\<close>

text \<open>A second squire that is alive and off the board (no position).\<close>

definition example_bench_squire :: unit where
  "example_bench_squire = projr (new_Unit ''squire'' 1 2)"

text \<open>
  C6 (fails on the code). The claim: the trait count at combat start counts only living
  units on the board, each once for each trait it carries. \<open>countTraits\<close> of the engine
  counts each living unit once for a trait, and skips units that are not alive, but it
  does not look at the position: the squire on the board and the squire off the board
  count as 2 warriors, where \<open>calculateTraits\<close> of traits.js, which filters on
  \<open>isOnBoard\<close>, counts 1. With the count 2 the preparation of the combat grants both
  of them the warrior bonus of 25 armour.
\<close>

theorem countTraits_counts_off_board:
  "isAlive example_squire \<and> isOnBoard example_squire
   \<and> isAlive example_bench_squire \<and> \<not> isOnBoard example_bench_squire
   \<and> countTraits [example_squire, example_bench_squire] = [(''warrior'', 2)]
   \<and> calculateTraits [example_squire, example_bench_squire] = [(''warrior'', 1)]
   \<and> countTraits [example_squire, die example_bench_squire] = [(''warrior'', 1)]
   \<and> map (\<lambda>u. armorBonus (buffs u))
        (heap (projr (prepare [example_squire, example_bench_squire] [] (new_Combat (\<lambda>n. 0) 1))))
      = [Num 25, Num 25]"
  by code_simp

theorem countTraits_counts_off_board_witness:
  "countTraits [example_squire, example_bench_squire]
     \<noteq> calculateTraits [example_squire, example_bench_squire]"
  using countTraits_counts_off_board by simp

text \<open>
  C3 (fails on the code). The claim: in every reachable state of a combat
  \<open>0 \<le> currentHp \<le> effectiveMaxHp\<close> and \<open>0 \<le> currentMana \<le> maxMana\<close>. After the
  preparation the bounds hold for the squire and the apprentice. In the first tick the
  apprentice attacks the squire; the damage passed on is the function object that
  \<open>attacker.attack\<close> evaluates to (see C1), and the hit points of the squire become
  \<open>NaN\<close>, for which neither bound holds.
\<close>

theorem hp_bounds_broken_by_attack:
  "js_le (Num 0) (currentHp (heap example_combat ! 0))
   \<and> js_le (currentHp (heap example_combat ! 0)) (effectiveMaxHp (heap example_combat ! 0))
   \<and> currentHp (heap (tick example_combat) ! 0) = NaN
   \<and> \<not> js_le (Num 0) (currentHp (heap (tick example_combat) ! 0))
   \<and> \<not> js_le (currentHp (heap (tick example_combat) ! 0))
          (effectiveMaxHp (heap (tick example_combat) ! 0))
   \<and> map currentHp (heap (projr (runSync [example_squire] [example_apprentice] 1000
                                   (new_Combat (\<lambda>n. 0) 1)))) = [NaN, Num 400]"
  by code_simp

theorem hp_bounds_broken_by_attack_witness:
  "\<not> js_le (Num 0) (currentHp (heap (tick example_combat) ! 0))"
  using hp_bounds_broken_by_attack by simp

section \<open>Units that are not alive\<close>

text \<open>
  Every write of the tick to a unit other than the one whose turn it is goes through a
  method that returns at once on a unit that is not alive. So a unit that is not alive
  keeps its whole record: position, state, target, cooldown, mana, buffs.
\<close>

lemma takeDamage_dead: "\<not> isAlive u \<Longrightarrow> takeDamage v t u = (Num 0, u)"
  by (simp add: takeDamage_def)

lemma gainMana_dead: "\<not> isAlive u \<Longrightarrow> gainMana m u = u"
  by (simp add: gainMana_def)

lemma applyStun_dead: "\<not> isAlive u \<Longrightarrow> applyStun d u = u"
  by (simp add: applyStun_def)

lemma applySlow_dead: "\<not> isAlive u \<Longrightarrow> applySlow a d u = u"
  by (simp add: applySlow_def)

lemma frozen_upd_other: "x \<noteq> a \<Longrightarrow> heap (upd a f c) ! x = heap c ! x"
  by (simp add: nth_upd)

lemma frozen_upd_guarded:
  "\<not> isAlive (heap c ! x) \<Longrightarrow> (\<And>u. \<not> isAlive u \<Longrightarrow> f u = u) \<Longrightarrow> heap (upd a f c) ! x = heap c ! x"
  by (auto simp: nth_upd)

lemma frozen_takeDamage_at:
  "\<not> isAlive (heap c ! x) \<Longrightarrow> heap (snd (takeDamage_at d v t c)) ! x = heap c ! x"
  by (cases "d < length (heap c)")
     (auto simp: takeDamage_at_def case_prod_beta nth_list_update takeDamage_dead list_update_beyond)

lemma frozen_fold:
  assumes "\<And>e c. \<not> isAlive (heap c ! x) \<Longrightarrow> heap (f e c) ! x = heap c ! x"
  shows "\<not> isAlive (heap c ! x) \<Longrightarrow> heap (fold f es c) ! x = heap c ! x"
  by (induction es arbitrary: c) (simp_all add: assms)

lemma frozen_fold_upd:
  "x \<notin> set es \<Longrightarrow> heap (fold (\<lambda>e. upd e f) es c) ! x = heap c ! x"
  by (induction es arbitrary: c) (simp_all add: nth_upd)

lemma frozen_crowd_control:
  "\<not> isAlive (heap c ! x) \<Longrightarrow> heap (crowd_control ab e c) ! x = heap c ! x"
  by (simp add: crowd_control_def Let_def frozen_upd_guarded applyStun_dead applySlow_dead)

lemma frozen_ability_hit_one:
  "\<not> isAlive (heap c ! x) \<Longrightarrow> heap (ability_hit_one ab k b e c) ! x = heap c ! x"
  by (simp add: ability_hit_one_def Let_def case_prod_beta frozen_crowd_control frozen_takeDamage_at)

lemma frozen_cast_damage:
  "\<not> isAlive (heap c ! x) \<Longrightarrow> heap (cast_damage ab k t es spm c) ! x = heap c ! x"
  by (simp add: cast_damage_def Let_def frozen_fold frozen_ability_hit_one)

lemma frozen_cast_multiplier:
  "\<not> isAlive (heap c ! x) \<Longrightarrow> heap (cast_multiplier ab k t spm c) ! x = heap c ! x"
  by (simp add: cast_multiplier_def Let_def case_prod_beta frozen_takeDamage_at)

lemma frozen_cast_armor:
  "x \<noteq> k \<Longrightarrow> heap (cast_armor ab k c) ! x = heap c ! x"
  by (simp add: cast_armor_def Let_def frozen_upd_other)

lemma frozen_cast_warcry:
  "\<not> isAlive (heap c ! x) \<Longrightarrow> heap (cast_warcry ab k c) ! x = heap c ! x"
  by (simp add: cast_warcry_def Let_def frozen_fold_upd alive_of_def)

lemma frozen_chain_hit:
  "\<not> isAlive (heap c ! x) \<Longrightarrow> heap (chain_hit ab k b es i c) ! x = heap c ! x"
  by (simp add: chain_hit_def Let_def case_prod_beta frozen_takeDamage_at)

lemma frozen_cast_chain:
  "\<not> isAlive (heap c ! x) \<Longrightarrow> heap (cast_chain ab k es spm c) ! x = heap c ! x"
  by (simp add: cast_chain_def Let_def frozen_fold frozen_chain_hit)

lemma frozen_whirl_hit:
  "\<not> isAlive (heap c ! x) \<Longrightarrow> heap (whirl_hit ab k b h e c) ! x = heap c ! x"
  by (simp add: whirl_hit_def Let_def case_prod_beta frozen_takeDamage_at)

lemma frozen_cast_hits:
  "\<not> isAlive (heap c ! x) \<Longrightarrow> heap (cast_hits ab k es spm c) ! x = heap c ! x"
  by (simp add: cast_hits_def Let_def frozen_fold frozen_whirl_hit)

lemma frozen_castAbility:
  "\<not> isAlive (heap c ! x) \<Longrightarrow> x \<noteq> k \<Longrightarrow> heap (castAbility k t c) ! x = heap c ! x"
  by (simp add: castAbility_def Let_def frozen_cast_hits frozen_cast_chain frozen_cast_warcry
        frozen_cast_armor frozen_cast_multiplier frozen_cast_damage frozen_upd_other
        split: option.splits)

lemma frozen_Combat_attack:
  "\<not> isAlive (heap c ! x) \<Longrightarrow> x \<noteq> a \<Longrightarrow> heap (Combat_attack a d c) ! x = heap c ! x"
  by (simp add: Combat_attack_def Let_def case_prod_beta frozen_castAbility frozen_upd_other
        frozen_takeDamage_at Math_random_def)

lemma frozen_findTarget:
  "x \<noteq> a \<Longrightarrow> heap (findTarget a es c) ! x = heap c ! x"
  by (simp add: findTarget_def Let_def frozen_upd_other)

lemma frozen_moveToward:
  "x \<noteq> a \<Longrightarrow> heap (snd (moveToward a t c)) ! x = heap c ! x"
  by (simp add: moveToward_def Let_def case_prod_beta frozen_upd_other nth_upd upd_def
        split: option.splits)

lemma frozen_process_unit:
  "\<not> isAlive (heap c ! x) \<Longrightarrow> heap (process_unit dt ap ae a c) ! x = heap c ! x"
proof (cases "x = a")
  case True
  then show "\<not> isAlive (heap c ! x) \<Longrightarrow> ?thesis" by (simp add: process_unit_def)
next
  case False
  then show "\<not> isAlive (heap c ! x) \<Longrightarrow> ?thesis"
    by (simp add: process_unit_def Let_def frozen_upd_other frozen_findTarget
          frozen_Combat_attack frozen_moveToward split: option.splits)
qed


section \<open>Invariants of the tick\<close>

text \<open>
  The owner tag of the unit at each address. No function of the tick writes it.
\<close>

definition owners :: "combat \<Rightarrow> nat \<Rightarrow> string option" where
  "owners c b = ownerId (heap c ! b)"

lemma owners_upd: "(\<And>u. ownerId (f u) = ownerId u) \<Longrightarrow> owners (upd a f c) = owners c"
  by (rule ext) (simp add: owners_def nth_upd)

lemma owners_log_event [simp]: "owners (log_event d c) = owners c"
  by (rule ext) (simp add: owners_def)

lemma owners_Math_random [simp]: "owners (snd (Math_random c)) = owners c"
  by (rule ext) (simp add: owners_def Math_random_def)

lemma ownerId_gainMana [simp]: "ownerId (gainMana m u) = ownerId u"
  by (simp add: gainMana_def Let_def)

lemma ownerId_takeDamage [simp]: "ownerId (snd (takeDamage v t u)) = ownerId u"
  by (simp add: takeDamage_def Let_def die_def)

lemma ownerId_applyStun [simp]: "ownerId (applyStun d u) = ownerId u"
  by (simp add: applyStun_def)

lemma ownerId_applySlow [simp]: "ownerId (applySlow a d u) = ownerId u"
  by (simp add: applySlow_def)

lemma ownerId_updateStatusEffects [simp]: "ownerId (updateStatusEffects dt u) = ownerId u"
  by (simp add: updateStatusEffects_def Let_def)

lemma owners_takeDamage_at [simp]: "owners (snd (takeDamage_at d v t c)) = owners c"
proof (rule ext)
  fix b
  show "owners (snd (takeDamage_at d v t c)) b = owners c b"
    by (cases "d < length (heap c)")
       (auto simp: owners_def takeDamage_at_def case_prod_beta nth_list_update list_update_beyond)
qed

lemma owners_fold: "(\<And>x c. owners (f x c) = owners c) \<Longrightarrow> owners (fold f xs c) = owners c"
  by (induction xs arbitrary: c) simp_all

lemma owners_crowd_control [simp]: "owners (crowd_control ab e c) = owners c"
  by (simp add: crowd_control_def Let_def owners_upd)

lemma owners_ability_hit_one [simp]: "owners (ability_hit_one ab k b e c) = owners c"
  by (simp add: ability_hit_one_def Let_def case_prod_beta)

lemma owners_cast_damage [simp]: "owners (cast_damage ab k t es spm c) = owners c"
  by (simp add: cast_damage_def Let_def owners_fold)

lemma owners_cast_multiplier [simp]: "owners (cast_multiplier ab k t spm c) = owners c"
  by (simp add: cast_multiplier_def Let_def case_prod_beta)

lemma owners_cast_armor [simp]: "owners (cast_armor ab k c) = owners c"
  by (simp add: cast_armor_def Let_def owners_upd)

lemma owners_cast_warcry [simp]: "owners (cast_warcry ab k c) = owners c"
  by (simp add: cast_warcry_def Let_def owners_fold owners_upd)

lemma owners_chain_hit [simp]: "owners (chain_hit ab k b es i c) = owners c"
  by (simp add: chain_hit_def Let_def case_prod_beta)

lemma owners_cast_chain [simp]: "owners (cast_chain ab k es spm c) = owners c"
  by (simp add: cast_chain_def Let_def owners_fold)

lemma owners_whirl_hit [simp]: "owners (whirl_hit ab k b h e c) = owners c"
  by (simp add: whirl_hit_def Let_def case_prod_beta)

lemma owners_cast_hits [simp]: "owners (cast_hits ab k es spm c) = owners c"
  by (simp add: cast_hits_def Let_def owners_fold)

lemma owners_castAbility [simp]: "owners (castAbility k t c) = owners c"
  by (simp add: castAbility_def Let_def owners_upd split: option.splits)

lemma owners_Combat_attack [simp]: "owners (Combat_attack a d c) = owners c"
  by (simp add: Combat_attack_def Let_def case_prod_beta owners_upd)

lemma owners_findTarget [simp]: "owners (findTarget a es c) = owners c"
  by (simp add: findTarget_def Let_def owners_upd)

lemma owners_occupied [simp]: "owners (c\<lparr> occupiedPositions := s \<rparr>) = owners c"
  by (rule ext) (simp add: owners_def)

lemma owners_moveToward [simp]: "owners (snd (moveToward a t c)) = owners c"
  by (simp add: moveToward_def Let_def case_prod_beta owners_upd split: option.splits)

lemma owners_process_unit [simp]: "owners (process_unit dt ap ae a c) = owners c"
  by (simp add: process_unit_def Let_def owners_upd split: option.splits)

text \<open>
  Every unit of the player roster is tagged \<open>player\<close>, every unit of the enemy roster
  \<open>enemy\<close>, and the rosters hold addresses of the store.
\<close>

definition owner_ok :: "combat \<Rightarrow> bool" where
  "owner_ok c \<longleftrightarrow>
     (\<forall>a \<in> set (playerUnits c). a < length (heap c) \<and> ownerId (heap c ! a) = Some ''player'')
     \<and> (\<forall>a \<in> set (enemyUnits c). a < length (heap c) \<and> ownerId (heap c ! a) = Some ''enemy'')"

lemma owner_ok_cong:
  "ctrl c' = ctrl c \<Longrightarrow> owners c' = owners c \<Longrightarrow> owner_ok c' = owner_ok c"
proof -
  assume a: "ctrl c' = ctrl c" and b: "owners c' = owners c"
  have "ownerId (heap c' ! x) = ownerId (heap c ! x)" for x
    using fun_cong [OF b, of x] by (simp add: owners_def)
  then show ?thesis
    using ctrlD [OF a] by (simp add: owner_ok_def)
qed


text \<open>
  What holds of the unit at address \<open>b\<close>: with no hit points left it is in the state
  DEAD, and it does not target itself.
\<close>

definition unit_ok :: "nat \<Rightarrow> unit \<Rightarrow> bool" where
  "unit_ok b u \<longleftrightarrow> (currentHp u = Num 0 \<longrightarrow> state u = DEAD) \<and> target u \<noteq> Some b"

definition units_ok :: "combat \<Rightarrow> bool" where
  "units_ok c \<longleftrightarrow> (\<forall>b < length (heap c). unit_ok b (heap c ! b))"

lemma units_ok_upd: "units_ok c \<Longrightarrow> (a < length (heap c) \<Longrightarrow> unit_ok a (f (heap c ! a))) \<Longrightarrow> units_ok (upd a f c)"
  by (simp add: units_ok_def nth_upd)

lemma units_ok_log_event [simp]: "units_ok (log_event d c) = units_ok c"
  by (simp add: units_ok_def)

lemma units_ok_Math_random [simp]: "units_ok (snd (Math_random c)) = units_ok c"
  by (simp add: units_ok_def Math_random_def)

lemma units_ok_occupied [simp]: "units_ok (c\<lparr> occupiedPositions := s \<rparr>) = units_ok c"
  by (simp add: units_ok_def)

lemma js_le_zero_self: "js_le (Num 0) (Num 0)"
  by simp

lemma unit_ok_takeDamage: "unit_ok b u \<Longrightarrow> unit_ok b (snd (takeDamage v t u))"
proof -
  assume w: "unit_ok b u"
  show ?thesis
  proof (cases "isAlive u")
    case False
    with w show ?thesis by (simp add: takeDamage_dead)
  next
    case True
    have "currentHp x = Num 0 \<Longrightarrow> js_le (currentHp x) (Num 0)" for x :: unit
      by simp
    with True w show ?thesis
      by (auto simp: takeDamage_def Let_def unit_ok_def die_def gainMana_def)
  qed
qed

lemma units_ok_takeDamage_at: "units_ok c \<Longrightarrow> units_ok (snd (takeDamage_at d v t c))"
  by (cases "d < length (heap c)")
     (auto simp: units_ok_def takeDamage_at_def case_prod_beta nth_list_update unit_ok_takeDamage
        list_update_beyond)

lemma unit_ok_gainMana: "unit_ok b u \<Longrightarrow> unit_ok b (gainMana m u)"
  by (simp add: unit_ok_def gainMana_def Let_def)

lemma unit_ok_applyStun: "unit_ok b u \<Longrightarrow> unit_ok b (applyStun d u)"
  by (simp add: unit_ok_def applyStun_def)

lemma unit_ok_applySlow: "unit_ok b u \<Longrightarrow> unit_ok b (applySlow a d u)"
  by (simp add: unit_ok_def applySlow_def)

lemma unit_ok_updateStatusEffects: "unit_ok b u \<Longrightarrow> unit_ok b (updateStatusEffects dt u)"
  by (simp add: unit_ok_def updateStatusEffects_def Let_def)

lemma units_okD: "units_ok c \<Longrightarrow> a < length (heap c) \<Longrightarrow> unit_ok a (heap c ! a)"
  by (simp add: units_ok_def)

lemma units_ok_fold: "(\<And>e c. units_ok c \<Longrightarrow> units_ok (f e c)) \<Longrightarrow> units_ok c \<Longrightarrow> units_ok (fold f es c)"
  by (induction es arbitrary: c) simp_all

lemma units_ok_crowd_control: "units_ok c \<Longrightarrow> units_ok (crowd_control ab e c)"
  by (auto simp: crowd_control_def Let_def intro!: units_ok_upd unit_ok_applyStun unit_ok_applySlow units_okD)

lemma units_ok_ability_hit_one: "units_ok c \<Longrightarrow> units_ok (ability_hit_one ab k b e c)"
  by (simp add: ability_hit_one_def Let_def case_prod_beta units_ok_crowd_control units_ok_takeDamage_at)

lemma units_ok_cast_damage: "units_ok c \<Longrightarrow> units_ok (cast_damage ab k t es spm c)"
  by (simp add: cast_damage_def Let_def units_ok_fold units_ok_ability_hit_one)

lemma units_ok_cast_multiplier: "units_ok c \<Longrightarrow> units_ok (cast_multiplier ab k t spm c)"
  by (simp add: cast_multiplier_def Let_def case_prod_beta units_ok_takeDamage_at)

lemma units_ok_cast_armor: "units_ok c \<Longrightarrow> units_ok (cast_armor ab k c)"
  by (auto simp: cast_armor_def Let_def unit_ok_def units_ok_def nth_upd)

lemma units_ok_cast_warcry: "units_ok c \<Longrightarrow> units_ok (cast_warcry ab k c)"
proof -
  have "units_ok c \<Longrightarrow> units_ok (upd e (\<lambda>u. u\<lparr> buffs := g u \<rparr>) c)" for e g c
    by (auto simp: unit_ok_def units_ok_def nth_upd)
  then show "units_ok c \<Longrightarrow> units_ok (cast_warcry ab k c)"
    by (simp add: cast_warcry_def Let_def units_ok_fold)
qed

lemma units_ok_chain_hit: "units_ok c \<Longrightarrow> units_ok (chain_hit ab k b es i c)"
  by (simp add: chain_hit_def Let_def case_prod_beta units_ok_takeDamage_at)

lemma units_ok_cast_chain: "units_ok c \<Longrightarrow> units_ok (cast_chain ab k es spm c)"
  by (simp add: cast_chain_def Let_def units_ok_fold units_ok_chain_hit)

lemma units_ok_whirl_hit: "units_ok c \<Longrightarrow> units_ok (whirl_hit ab k b h e c)"
  by (simp add: whirl_hit_def Let_def case_prod_beta units_ok_takeDamage_at)

lemma units_ok_cast_hits: "units_ok c \<Longrightarrow> units_ok (cast_hits ab k es spm c)"
  by (simp add: cast_hits_def Let_def units_ok_fold units_ok_whirl_hit)

lemma alive_hp_nonzero: "isAlive u \<Longrightarrow> currentHp u \<noteq> Num 0"
  by (auto simp: isAlive_def js_gt_def)

lemma units_ok_castAbility:
  assumes "units_ok c" and "k < length (heap c) \<Longrightarrow> isAlive (heap c ! k)"
  shows "units_ok (castAbility k t c)"
proof (cases "ability (heap c ! k)")
  case None
  with assms show ?thesis by (simp add: castAbility_def)
next
  case (Some ab)
  have "units_ok (upd k (\<lambda>u. u\<lparr> currentMana := Num 0, state := CASTING \<rparr>) c)"
  proof (rule units_ok_upd [OF assms(1)])
    assume k: "k < length (heap c)"
    from units_okD [OF assms(1) k] alive_hp_nonzero [OF assms(2) [OF k]]
    show "unit_ok k ((heap c ! k)\<lparr> currentMana := Num 0, state := CASTING \<rparr>)"
      by (simp add: unit_ok_def)
  qed
  then show ?thesis
    using Some
    by (simp add: castAbility_def Let_def units_ok_cast_hits units_ok_cast_chain units_ok_cast_warcry units_ok_cast_armor
          units_ok_cast_multiplier units_ok_cast_damage)
qed

lemma other_takeDamage_at: "x \<noteq> d \<Longrightarrow> heap (snd (takeDamage_at d v t c)) ! x = heap c ! x"
  by (simp add: takeDamage_at_def case_prod_beta)

lemma length_takeDamage_at [simp]: "length (heap (snd (takeDamage_at d v t c))) = length (heap c)"
  by (simp add: takeDamage_at_def case_prod_beta)

lemma heap_Math_random [simp]: "heap (snd (Math_random c)) = heap c"
  by (simp add: Math_random_def)

lemma isAlive_gainMana [simp]: "isAlive (gainMana m u) = isAlive u"
  by (simp add: isAlive_def gainMana_def Let_def)

text \<open>The part of \<open>attack\<close> before the ability check: damage, mana and the log entry.\<close>

definition strike :: "nat \<Rightarrow> nat \<Rightarrow> combat \<Rightarrow> combat" where
  "strike a d c =
     (let attacker = heap c ! a;
          damage = Unit_attack attacker;
          (damage, isCrit, c) =
            (if js_gt (critChance (buffs attacker)) (Num 0)
             then let (r, c1) = Math_random c;
                      critRoll = Num (r * 100)
                  in if js_lt critRoll (critChance (buffs attacker))
                     then let critMultiplier =
                                js_add (Num 1.5) (js_div (critDamage (buffs attacker)) (Num 100))
                          in (JNumber (js_floor (js_mul (ToNumber damage) critMultiplier)),
                              True, c1)
                     else (damage, False, c1)
             else (damage, False, c));
          (physicalDamageDealt, c) = takeDamage_at d damage ''physical'' c;
          (magicDamageDealt, c) =
            (if js_gt (magicDamage (buffs attacker)) (Num 0)
             then takeDamage_at d (JNumber (magicDamage (buffs attacker))) ''magic'' c
             else (Num 0, c));
          totalDamage = js_add physicalDamageDealt magicDamageDealt;
          c = upd a (gainMana MANA_PER_ATTACK) c
      in log_event (Attack (name (heap c ! a)) (name (heap c ! d)) physicalDamageDealt
                      magicDamageDealt totalDamage isCrit (currentHp (heap c ! d))
                      (\<not> isAlive (heap c ! d))) c)"

lemma Combat_attack_strike:
  "Combat_attack a d c =
     (if \<not> canAct (heap c ! a) \<or> \<not> isAlive (heap c ! d) then c
      else if js_ge (currentMana (heap (strike a d c) ! a)) (maxMana (heap (strike a d c) ! a))
              \<and> ability (heap (strike a d c) ! a) \<noteq> None
           then castAbility a d (strike a d c) else strike a d c)"
  by (simp only: Combat_attack_def strike_def Let_def case_prod_beta)

lemma units_ok_strike: "units_ok c \<Longrightarrow> units_ok (strike a d c)"
  unfolding strike_def Let_def case_prod_beta
  by (auto intro!: units_ok_upd unit_ok_gainMana units_okD units_ok_takeDamage_at)

lemma length_strike [simp]: "length (heap (strike a d c)) = length (heap c)"
  unfolding strike_def Let_def case_prod_beta by auto

lemma heap_strike_self:
  "a \<noteq> d \<Longrightarrow> a < length (heap c) \<Longrightarrow> heap (strike a d c) ! a = gainMana MANA_PER_ATTACK (heap c ! a)"
  unfolding strike_def Let_def case_prod_beta
  by (auto simp: nth_upd other_takeDamage_at)

lemma hp_strike:
  "x \<noteq> d \<Longrightarrow> currentHp (heap (strike a d c) ! x) = currentHp (heap c ! x)"
  unfolding strike_def Let_def case_prod_beta
  by (auto simp: nth_upd other_takeDamage_at)

lemma units_ok_Combat_attack: "units_ok c \<Longrightarrow> a \<noteq> d \<Longrightarrow> a < length (heap c) \<Longrightarrow> units_ok (Combat_attack a d c)"
  by (auto simp: Combat_attack_strike units_ok_strike heap_strike_self canAct_def intro!: units_ok_castAbility)


text \<open>Whose hit points an attack can change: the defender's and those of the opposing roster.\<close>

lemma hp_upd:
  "(\<And>u. currentHp (f u) = currentHp u) \<Longrightarrow> currentHp (heap (upd a f c) ! x) = currentHp (heap c ! x)"
  by (simp add: nth_upd)

lemma hp_takeDamage_at:
  "x \<noteq> d \<Longrightarrow> currentHp (heap (snd (takeDamage_at d v t c)) ! x) = currentHp (heap c ! x)"
  by (simp add: other_takeDamage_at)

lemma hp_fold:
  assumes "\<And>e c. e \<in> set es \<Longrightarrow> currentHp (heap (f e c) ! x) = currentHp (heap c ! x)"
  shows "currentHp (heap (fold f es c) ! x) = currentHp (heap c ! x)"
  using assms by (induction es arbitrary: c) simp_all

lemma hp_crowd_control: "currentHp (heap (crowd_control ab e c) ! x) = currentHp (heap c ! x)"
  by (simp add: crowd_control_def Let_def hp_upd applyStun_def applySlow_def)

lemma hp_ability_hit_one:
  "x \<noteq> e \<Longrightarrow> currentHp (heap (ability_hit_one ab k b e c) ! x) = currentHp (heap c ! x)"
  by (simp add: ability_hit_one_def Let_def case_prod_beta hp_crowd_control hp_takeDamage_at)

lemma hp_ability_hit_one_mem:
  "e \<in> set es \<Longrightarrow> x \<notin> set es \<Longrightarrow>
     currentHp (heap (ability_hit_one ab k b e c) ! x) = currentHp (heap c ! x)"
  by (rule hp_ability_hit_one) auto

lemma hp_cast_damage:
  "x \<noteq> t \<Longrightarrow> x \<notin> set es \<Longrightarrow> currentHp (heap (cast_damage ab k t es spm c) ! x) = currentHp (heap c ! x)"
  by (auto simp: cast_damage_def Let_def hp_ability_hit_one hp_ability_hit_one_mem intro!: hp_fold)

lemma hp_cast_multiplier:
  "x \<noteq> t \<Longrightarrow> currentHp (heap (cast_multiplier ab k t spm c) ! x) = currentHp (heap c ! x)"
  by (simp add: cast_multiplier_def Let_def case_prod_beta hp_takeDamage_at)

lemma hp_cast_armor: "currentHp (heap (cast_armor ab k c) ! x) = currentHp (heap c ! x)"
  by (simp add: cast_armor_def Let_def hp_upd)

lemma hp_cast_warcry: "currentHp (heap (cast_warcry ab k c) ! x) = currentHp (heap c ! x)"
  by (auto simp: cast_warcry_def Let_def hp_upd intro!: hp_fold)

lemma set_insert_by [simp]: "set (insert_by k x ys) = insert x (set ys)"
  by (induction ys) auto

lemma set_sort_by [simp]: "set (sort_by k xs) = set xs"
  by (induction xs) (simp_all add: sort_by_def)

lemma length_insert_by [simp]: "length (insert_by k x ys) = Suc (length ys)"
  by (induction ys) auto

lemma length_sort_by [simp]: "length (sort_by k xs) = length xs"
  by (induction xs) (simp_all add: sort_by_def)

lemma hp_chain_hit:
  "i < length es \<Longrightarrow> x \<notin> set es \<Longrightarrow>
     currentHp (heap (chain_hit ab k b es i c) ! x) = currentHp (heap c ! x)"
proof -
  assume "i < length es" "x \<notin> set es"
  then have "x \<noteq> es ! i" by (metis nth_mem)
  then show ?thesis
    by (simp add: chain_hit_def Let_def case_prod_beta hp_takeDamage_at)
qed

lemma hp_cast_chain:
  "x \<notin> set es \<Longrightarrow> currentHp (heap (cast_chain ab k es spm c) ! x) = currentHp (heap c ! x)"
  by (auto simp: cast_chain_def Let_def hp_chain_hit intro!: hp_fold)

lemma hp_whirl_hit:
  "x \<noteq> e \<Longrightarrow> currentHp (heap (whirl_hit ab k b h e c) ! x) = currentHp (heap c ! x)"
  by (simp add: whirl_hit_def Let_def case_prod_beta hp_takeDamage_at)

lemma hp_whirl_hit_mem:
  "e \<in> set es \<Longrightarrow> x \<notin> set es \<Longrightarrow>
     currentHp (heap (whirl_hit ab k b h e c) ! x) = currentHp (heap c ! x)"
  by (rule hp_whirl_hit) auto

lemma hp_cast_hits:
  "x \<notin> set es \<Longrightarrow> currentHp (heap (cast_hits ab k es spm c) ! x) = currentHp (heap c ! x)"
  by (auto simp: cast_hits_def Let_def hp_whirl_hit_mem intro!: hp_fold)

lemma set_alive_of: "set (alive_of c as) \<subseteq> set as"
  by (auto simp: alive_of_def)

lemma playerUnits_upd [simp]: "playerUnits (upd a f c) = playerUnits c"
  by (simp add: upd_def)

lemma enemyUnits_upd [simp]: "enemyUnits (upd a f c) = enemyUnits c"
  by (simp add: upd_def)

lemma hp_castAbility:
  assumes "x \<noteq> t"
    and "ownerId (heap c ! k) = Some ''player'' \<Longrightarrow> x \<notin> set (enemyUnits c)"
    and "ownerId (heap c ! k) \<noteq> Some ''player'' \<Longrightarrow> x \<notin> set (playerUnits c)"
  shows "currentHp (heap (castAbility k t c) ! x) = currentHp (heap c ! x)"
proof (cases "ability (heap c ! k)")
  case None
  then show ?thesis by (simp add: castAbility_def)
next
  case (Some ab)
  define c1 where "c1 = upd k (\<lambda>u. u\<lparr> currentMana := Num 0, state := CASTING \<rparr>) c"
  define es where "es = (if ownerId (heap c1 ! k) = Some ''player''
                         then alive_of c1 (enemyUnits c1) else alive_of c1 (playerUnits c1))"
  have own: "ownerId (heap c1 ! k) = ownerId (heap c ! k)"
    by (simp add: c1_def nth_upd)
  have "x \<notin> set es"
    using assms(2,3) own set_alive_of [of c1 "enemyUnits c"] set_alive_of [of c1 "playerUnits c"]
    by (auto simp: es_def c1_def)
  moreover have "currentHp (heap c1 ! x) = currentHp (heap c ! x)"
    by (simp add: c1_def hp_upd)
  ultimately show ?thesis
    using Some assms(1)
    by (simp add: castAbility_def Let_def c1_def [symmetric] es_def [symmetric] hp_cast_hits
          hp_cast_chain hp_cast_warcry hp_cast_armor hp_cast_multiplier hp_cast_damage)
qed

lemma ownerId_strike [simp]: "ownerId (heap (strike a d c) ! x) = ownerId (heap c ! x)"
proof -
  have "owners (strike a d c) = owners c"
    unfolding strike_def Let_def case_prod_beta by (auto simp: owners_upd)
  from fun_cong [OF this, of x] show ?thesis by (simp add: owners_def)
qed

lemma ctrl_strike [simp]: "ctrl (strike a d c) = ctrl c"
  unfolding strike_def Let_def case_prod_beta by auto

lemma hp_Combat_attack:
  assumes "x \<noteq> d"
    and "ownerId (heap c ! a) = Some ''player'' \<Longrightarrow> x \<notin> set (enemyUnits c)"
    and "ownerId (heap c ! a) \<noteq> Some ''player'' \<Longrightarrow> x \<notin> set (playerUnits c)"
  shows "currentHp (heap (Combat_attack a d c) ! x) = currentHp (heap c ! x)"
proof -
  have "currentHp (heap (castAbility a d (strike a d c)) ! x) = currentHp (heap (strike a d c) ! x)"
    using assms ctrlD(4,5) [OF ctrl_strike, of a d c]
    by (intro hp_castAbility) simp_all
  then show ?thesis
    using assms(1) by (simp add: Combat_attack_strike hp_strike)
qed


text \<open>Target search: the target found is a living enemy on the board, or none.\<close>

lemma closest_fold:
  "fst (fold (closest_step c a) es acc) = fst acc
   \<or> (\<exists>e \<in> set es. fst (fold (closest_step c a) es acc) = Some e)"
proof (induction es arbitrary: acc)
  case Nil
  then show ?case by simp
next
  case (Cons e es)
  from Cons.IH [of "closest_step c a e acc"] show ?case
    by (auto simp: closest_step_def Let_def split: if_splits)
qed

lemma findTarget_selects:
  assumes "a < length (heap c)" and "target (heap (findTarget a es c) ! a) = Some t"
  shows "t \<in> set es \<and> isAlive (heap c ! t) \<and> isOnBoard (heap c ! t)"
proof -
  let ?valid = "filter (\<lambda>e. isAlive (heap c ! e) \<and> isOnBoard (heap c ! e)) es"
  from assms have sel: "fst (fold (closest_step c a) ?valid (None, PInf)) = Some t"
    by (auto simp: findTarget_def Let_def nth_upd split: if_splits)
  with closest_fold [of c a ?valid "(None, PInf)"] have "t \<in> set ?valid"
    by auto
  then show ?thesis by simp
qed

lemma findTarget_heap:
  "heap (findTarget a es c) ! x = (if x = a \<and> a < length (heap c)
     then (heap c ! a)\<lparr> target := target (heap (findTarget a es c) ! a) \<rparr> else heap c ! x)"
  by (auto simp: findTarget_def Let_def nth_upd)

lemma length_findTarget [simp]: "length (heap (findTarget a es c)) = length (heap c)"
  by (simp add: findTarget_def Let_def)

lemma units_ok_findTarget:
  assumes "units_ok c" "a \<notin> set es"
  shows "units_ok (findTarget a es c)"
  unfolding units_ok_def
proof (intro allI impI)
  fix b assume b: "b < length (heap (findTarget a es c))"
  then have b': "b < length (heap c)" by simp
  show "unit_ok b (heap (findTarget a es c) ! b)"
  proof (cases "b = a")
    case False
    with units_okD [OF assms(1) b'] show ?thesis by (simp add: findTarget_heap)
  next
    case True
    have "target (heap (findTarget a es c) ! a) \<noteq> Some a"
      using findTarget_selects [of a c es a] b' True assms(2) by auto
    with units_okD [OF assms(1) b'] True b' show ?thesis
      by (subst findTarget_heap) (simp add: unit_ok_def)
  qed
qed

lemma units_ok_moveToward: "units_ok c \<Longrightarrow> units_ok (snd (moveToward a t c))"
proof -
  assume units_ok: "units_ok c"
  have occ: "units_ok (c\<lparr> occupiedPositions := s \<rparr>)" for s using units_ok by simp
  have "canAct (heap c ! a) \<Longrightarrow> a < length (heap c) \<Longrightarrow> unit_ok a ((heap c ! a)\<lparr> state := s \<rparr>)"
       "canAct (heap c ! a) \<Longrightarrow> a < length (heap c) \<Longrightarrow>
          unit_ok a ((heap c ! a)\<lparr> pos_x := px, pos_y := py, state := s \<rparr>)" for s px py
    using units_okD [OF units_ok, of a] alive_hp_nonzero [of "heap c ! a"]
    by (auto simp: unit_ok_def canAct_def)
  then show ?thesis
    using units_ok
    by (auto simp: moveToward_def Let_def case_prod_beta split: option.splits
          intro!: units_ok_upd)
qed

text \<open>The turn of a unit in stages: find a target, cool down, then attack, wait or move.\<close>

definition acquire :: "nat \<Rightarrow> nat list \<Rightarrow> combat \<Rightarrow> combat" where
  "acquire a enemies c =
     (case target (heap c ! a) of
        None \<Rightarrow> findTarget a enemies c
      | Some t \<Rightarrow> if \<not> isAlive (heap c ! t) then findTarget a enemies c else c)"

definition cool :: "jsnum \<Rightarrow> nat \<Rightarrow> combat \<Rightarrow> combat" where
  "cool deltaTime a c =
     (if js_gt (attackCooldown (heap c ! a)) (Num 0)
      then upd a (\<lambda>u. u\<lparr> attackCooldown := js_sub (attackCooldown u) deltaTime \<rparr>) c
      else c)"

definition act :: "nat \<Rightarrow> nat \<Rightarrow> combat \<Rightarrow> combat" where
  "act a t c =
     (let distance = getDistanceTo (heap c ! a) (heap c ! t);
          effectiveRange = getEffectiveRange (heap c ! a)
      in if js_le distance effectiveRange
         then if js_le (attackCooldown (heap c ! a)) (Num 0)
              then let c = Combat_attack a t c;
                       c = upd a (\<lambda>u. u\<lparr> attackCooldown :=
                                   js_div (Num 1) (effectiveAttackSpeed u) \<rparr>) c
                   in upd a (\<lambda>u. u\<lparr> state := ATTACKING \<rparr>) c
              else upd a (\<lambda>u. u\<lparr> state := IDLE \<rparr>) c
         else snd (moveToward a t c))"

lemma process_unit_stages:
  "process_unit dt ap ae a c =
     (if \<not> isAlive (heap c ! a) then c
      else let c1 = upd a (updateStatusEffects dt) c
           in if \<not> canAct (heap c1 ! a) then c1
              else let c2 = acquire a
                              (if ownerId (heap c1 ! a) = Some ''player'' then ae else ap) c1
                   in case target (heap c2 ! a) of
                        None \<Rightarrow> c2
                      | Some t \<Rightarrow> act a t (cool dt a c2))"
  by (simp only: process_unit_def acquire_def cool_def act_def Let_def)

lemma ctrl_acquire [simp]: "ctrl (acquire a es c) = ctrl c"
  by (simp add: acquire_def split: option.splits)

lemma owners_acquire [simp]: "owners (acquire a es c) = owners c"
  by (simp add: acquire_def split: option.splits)

lemma length_acquire [simp]: "length (heap (acquire a es c)) = length (heap c)"
  by (simp add: acquire_def split: option.splits)

lemma vital_findTarget:
  "currentHp (heap (findTarget a es c) ! x) = currentHp (heap c ! x)
   \<and> state (heap (findTarget a es c) ! x) = state (heap c ! x)"
  by (simp add: findTarget_def Let_def nth_upd)

lemma vital_acquire:
  "currentHp (heap (acquire a es c) ! x) = currentHp (heap c ! x)
   \<and> state (heap (acquire a es c) ! x) = state (heap c ! x)"
  by (simp add: acquire_def vital_findTarget split: option.splits)

lemma units_ok_acquire: "units_ok c \<Longrightarrow> a \<notin> set es \<Longrightarrow> units_ok (acquire a es c)"
  by (simp add: acquire_def units_ok_findTarget split: option.splits)

lemma ctrl_cool [simp]: "ctrl (cool dt a c) = ctrl c"
  by (simp add: cool_def)

lemma owners_cool [simp]: "owners (cool dt a c) = owners c"
  by (simp add: cool_def owners_upd)

lemma length_cool [simp]: "length (heap (cool dt a c)) = length (heap c)"
  by (simp add: cool_def)

lemma vital_cool:
  "currentHp (heap (cool dt a c) ! x) = currentHp (heap c ! x)
   \<and> state (heap (cool dt a c) ! x) = state (heap c ! x)"
  by (simp add: cool_def nth_upd)

lemma units_ok_cool: "units_ok c \<Longrightarrow> units_ok (cool dt a c)"
  by (auto simp: cool_def unit_ok_def units_ok_def nth_upd)

lemma isAlive_vital:
  "currentHp u = currentHp v \<Longrightarrow> state u = state v \<Longrightarrow> isAlive u = isAlive v"
  by (simp add: isAlive_def)

lemma owner_ok_not_opponent:
  assumes "owner_ok c"
  shows "ownerId (heap c ! a) = Some ''player'' \<Longrightarrow> a \<notin> set (enemyUnits c)"
    and "ownerId (heap c ! a) \<noteq> Some ''player'' \<Longrightarrow> a \<notin> set (playerUnits c)"
  using assms by (auto simp: owner_ok_def)

lemma length_Combat_attack [simp]: "length (heap (Combat_attack a d c)) = length (heap c)"
  using ctrlD(6) [OF ctrl_Combat_attack] .

lemma units_ok_act:
  assumes units_ok: "units_ok c" and ok: "owner_ok c" and a: "a < length (heap c)"
    and alive: "isAlive (heap c ! a)" and ta: "t \<noteq> a"
  shows "units_ok (act a t c)"
proof -
  have hp0: "currentHp (heap c ! a) \<noteq> Num 0"
    by (rule alive_hp_nonzero [OF alive])
  have idle: "units_ok (upd a (\<lambda>u. u\<lparr> state := IDLE \<rparr>) c)"
    using units_okD [OF units_ok a] hp0 by (intro units_ok_upd [OF units_ok]) (simp add: unit_ok_def)
  let ?c4 = "Combat_attack a t c"
  let ?c5 = "upd a (\<lambda>u. u\<lparr> attackCooldown := js_div (Num 1) (effectiveAttackSpeed u) \<rparr>) ?c4"
  have wf4: "units_ok ?c4"
    using units_ok ta a by (intro units_ok_Combat_attack) auto
  have hp4: "currentHp (heap ?c4 ! a) = currentHp (heap c ! a)"
    using ta owner_ok_not_opponent [OF ok, of a] by (intro hp_Combat_attack) auto
  have wf5: "units_ok ?c5"
    using units_okD [OF wf4, of a] a by (intro units_ok_upd [OF wf4]) (simp add: unit_ok_def)
  have hp5: "currentHp (heap ?c5 ! a) = currentHp (heap c ! a)"
    using hp4 by (simp add: nth_upd)
  have wf6: "units_ok (upd a (\<lambda>u. u\<lparr> state := ATTACKING \<rparr>) ?c5)"
    using units_okD [OF wf5, of a] a hp5 hp0 by (intro units_ok_upd [OF wf5]) (simp add: unit_ok_def)
  show ?thesis
    using idle wf6 units_ok_moveToward [OF units_ok, of a t]
    by (simp add: act_def Let_def)
qed

lemma units_ok_process_unit:
  assumes units_ok: "units_ok c" and ok: "owner_ok c"
    and ap: "set ap \<subseteq> set (playerUnits c)" and ae: "set ae \<subseteq> set (enemyUnits c)"
    and a: "a < length (heap c)"
  shows "units_ok (process_unit dt ap ae a c)"
proof (cases "isAlive (heap c ! a)")
  case False
  with units_ok show ?thesis by (simp add: process_unit_stages)
next
  case alive: True
  define c1 where "c1 = upd a (updateStatusEffects dt) c"
  have wf1: "units_ok c1"
    unfolding c1_def using units_okD [OF units_ok a] by (intro units_ok_upd [OF units_ok] unit_ok_updateStatusEffects)
  have h1: "heap c1 ! a = updateStatusEffects dt (heap c ! a)"
    using a by (simp add: c1_def nth_upd)
  have "owner_ok c1 = owner_ok c"
    by (rule owner_ok_cong) (simp_all add: c1_def owners_upd)
  with ok have ok1: "owner_ok c1" by simp
  have len1: "length (heap c1) = length (heap c)" by (simp add: c1_def)
  show ?thesis
  proof (cases "canAct (heap c1 ! a)")
    case False
    with alive wf1 show ?thesis by (simp add: process_unit_stages Let_def c1_def)
  next
    case act: True
    define es where "es = (if ownerId (heap c1 ! a) = Some ''player'' then ae else ap)"
    have own1: "ownerId (heap c1 ! a) = ownerId (heap c ! a)"
      by (simp add: h1)
    have notin: "a \<notin> set es"
      using owner_ok_not_opponent [OF ok, of a] ap ae own1 by (auto simp: es_def)
    define c2 where "c2 = acquire a es c1"
    have wf2: "units_ok c2" unfolding c2_def by (rule units_ok_acquire [OF wf1 notin])
    have "owner_ok c2 = owner_ok c1"
      by (rule owner_ok_cong) (simp_all add: c2_def)
    with ok1 have ok2: "owner_ok c2" by simp
    have len2: "length (heap c2) = length (heap c)" by (simp add: c2_def len1)
    have "isAlive (heap c2 ! a) = isAlive (heap c1 ! a)"
      unfolding c2_def using vital_acquire [of a es c1 a] by (intro isAlive_vital) simp_all
    with act have alive2: "isAlive (heap c2 ! a)" by (simp add: canAct_def)
    show ?thesis
    proof (cases "target (heap c2 ! a)")
      case None
      then have "process_unit dt ap ae a c = c2"
        using alive act unfolding process_unit_stages Let_def c1_def es_def c2_def by simp
      with wf2 show ?thesis by simp
    next
      case (Some t)
      have ta: "t \<noteq> a"
        using units_okD [OF wf2, of a] a len2 Some by (auto simp: unit_ok_def)
      define c3 where "c3 = cool dt a c2"
      have wf3: "units_ok c3" unfolding c3_def by (rule units_ok_cool [OF wf2])
      have "owner_ok c3 = owner_ok c2"
        by (rule owner_ok_cong) (simp_all add: c3_def)
      with ok2 have ok3: "owner_ok c3" by simp
      have len3: "a < length (heap c3)" using a len2 by (simp add: c3_def)
      have "isAlive (heap c3 ! a) = isAlive (heap c2 ! a)"
        unfolding c3_def using vital_cool [of dt a c2 a] by (intro isAlive_vital) simp_all
      with alive2 have alive3: "isAlive (heap c3 ! a)" by simp
      have wfa: "units_ok (act a t c3)"
        by (rule units_ok_act [OF wf3 ok3 len3 alive3 ta])
      have "process_unit dt ap ae a c = act a t c3"
        using alive act Some unfolding process_unit_stages Let_def c1_def es_def c2_def c3_def
        by simp
      with wfa show ?thesis by simp
    qed
  qed
qed

text \<open>\<open>Math.random()\<close> returns a number from 0 up to, not including, 1.\<close>

definition valid_random :: "(nat \<Rightarrow> real) \<Rightarrow> bool" where
  "valid_random rs \<longleftrightarrow> (\<forall>n. 0 \<le> rs n \<and> rs n < 1)"

lemma random_index:
  assumes "0 \<le> r" "r < 1"
  shows "nat \<lfloor>r * (real (Suc i) + 1)\<rfloor> \<le> Suc i"
proof -
  have "r * (real (Suc i) + 1) < 1 * (real (Suc i) + 1)"
    using assms by (intro mult_strict_right_mono) auto
  then have "\<lfloor>r * (real (Suc i) + 1)\<rfloor> < int (Suc i) + 1"
    by (simp add: floor_less_iff)
  then show ?thesis by linarith
qed

lemma random_stream_Math_random [simp]: "random_stream (snd (Math_random c)) = random_stream c"
  by (simp add: Math_random_def)

lemma set_shuffle_from:
  "valid_random (random_stream c) \<Longrightarrow> i < length xs \<Longrightarrow> set (fst (shuffle_from i xs c)) = set xs"
proof (induction i arbitrary: xs c)
  case 0
  then show ?case by simp
next
  case (Suc i)
  let ?r = "fst (Math_random c)"
  let ?j = "nat \<lfloor>?r * (real (Suc i) + 1)\<rfloor>"
  let ?xs = "xs[Suc i := xs ! ?j, ?j := xs ! Suc i]"
  have "0 \<le> ?r" "?r < 1"
    using Suc.prems(1) by (simp_all add: valid_random_def Math_random_def)
  then have j: "?j \<le> Suc i" by (rule random_index)
  with Suc.prems(2) have "set ?xs = set xs"
    by (intro set_swap) auto
  moreover have "set (fst (shuffle_from i ?xs (snd (Math_random c)))) = set ?xs"
    using Suc.prems by (intro Suc.IH) auto
  ultimately show ?case
    by (simp add: case_prod_beta Let_def)
qed

lemma set_shuffleArray:
  "valid_random (random_stream c) \<Longrightarrow> set (fst (shuffleArray xs c)) = set xs"
  by (cases "xs = []") (simp_all add: shuffleArray_def set_shuffle_from)

text \<open>The invariant of a combat.\<close>

definition combat_inv :: "combat \<Rightarrow> bool" where
  "combat_inv c \<longleftrightarrow> units_ok c \<and> owner_ok c \<and> valid_random (random_stream c)"

lemma inv_units_loop:
  assumes "units_ok c" "owner_ok c"
    and "set ap \<subseteq> set (playerUnits c)" "set ae \<subseteq> set (enemyUnits c)"
    and "\<forall>a \<in> set xs. a < length (heap c)"
  shows "units_ok (fold (process_unit dt ap ae) xs c) \<and> owner_ok (fold (process_unit dt ap ae) xs c)"
  using assms
proof (induction xs arbitrary: c)
  case Nil
  then show ?case by simp
next
  case (Cons x xs)
  let ?c = "process_unit dt ap ae x c"
  have units_ok': "units_ok ?c"
    using Cons.prems by (intro units_ok_process_unit) auto
  have "owner_ok ?c = owner_ok c"
    by (rule owner_ok_cong) simp_all
  with Cons.prems have ok': "owner_ok ?c" by simp
  have sub: "set ap \<subseteq> set (playerUnits ?c)" "set ae \<subseteq> set (enemyUnits ?c)"
    "\<forall>a \<in> set xs. a < length (heap ?c)"
    using Cons.prems ctrlD(4,5,6) [OF ctrl_process_unit, of dt ap ae x c] by auto
  from Cons.IH [OF units_ok' ok' sub] show ?case by simp
qed

lemma heap_updateOccupiedPositions [simp]: "heap (updateOccupiedPositions c) = heap c"
  by (simp add: updateOccupiedPositions_def)

lemma heap_shuffle_from [simp]: "heap (snd (shuffle_from i xs c)) = heap c"
  by (induction i arbitrary: xs c) (simp_all add: case_prod_beta Let_def)

lemma heap_shuffleArray [simp]: "heap (snd (shuffleArray xs c)) = heap c"
  by (simp add: shuffleArray_def)

lemma tick_running:
  assumes "isRunning c" "\<not> isOver c"
  shows "tick c =
     (let c1 = c\<lparr> tickCount := Suc (tickCount c) \<rparr>;
          ap = alive_of c (playerUnits c); ae = alive_of c (enemyUnits c);
          sh = shuffleArray (ap @ ae) (updateOccupiedPositions c1)
      in fold (process_unit (Num (COMBAT_TICK_MS / 1000)) ap ae) (fst sh) (snd sh))"
  using assms by (simp add: tick_def Let_def case_prod_beta)

lemma combat_inv_tick: "combat_inv c \<Longrightarrow> combat_inv (tick c)"
proof -
  assume inv: "combat_inv c"
  then have units_ok: "units_ok c" and ok: "owner_ok c" and vr: "valid_random (random_stream c)"
    by (simp_all add: combat_inv_def)
  show ?thesis
  proof (cases "isRunning c")
    case False
    with inv show ?thesis by (simp add: tick_stopped)
  next
    case run: True
    show ?thesis
    proof (cases "isOver c")
      case True
      have "units_ok (determinWinner (c\<lparr> tickCount := Suc (tickCount c) \<rparr>)) = units_ok c"
        by (simp add: units_ok_def)
      moreover have "owner_ok (determinWinner (c\<lparr> tickCount := Suc (tickCount c) \<rparr>)) = owner_ok c"
        by (simp add: owner_ok_def determinWinner_def endCombat_def stop_def log_event_def Let_def)
      moreover have "random_stream (determinWinner (c\<lparr> tickCount := Suc (tickCount c) \<rparr>))
                       = random_stream c"
        by (simp add: determinWinner_def endCombat_def stop_def log_event_def Let_def)
      ultimately show ?thesis
        using run True inv by (simp add: tick_over combat_inv_def)
    next
      case False
      define c1 where "c1 = c\<lparr> tickCount := Suc (tickCount c) \<rparr>"
      define ap where "ap = alive_of c (playerUnits c)"
      define ae where "ae = alive_of c (enemyUnits c)"
      define sh where "sh = shuffleArray (ap @ ae) (updateOccupiedPositions c1)"
      have t: "tick c = fold (process_unit (Num (COMBAT_TICK_MS / 1000)) ap ae) (fst sh) (snd sh)"
        using tick_running [OF run False] by (simp add: Let_def c1_def ap_def ae_def sh_def)
      have hs: "heap (snd sh) = heap c" by (simp add: sh_def c1_def)
      have cs: "ctrl (snd sh) = ctrl c1" by (simp add: sh_def)
      from ctrlD [OF cs] have fields: "playerUnits (snd sh) = playerUnits c"
        "enemyUnits (snd sh) = enemyUnits c" "random_stream (snd sh) = random_stream c"
        by (simp_all add: c1_def)
      have wfs: "units_ok (snd sh)" using units_ok hs by (simp add: units_ok_def)
      have oks: "owner_ok (snd sh)" using ok hs fields by (simp add: owner_ok_def)
      have "random_stream (updateOccupiedPositions c1) = random_stream c"
        by (simp add: updateOccupiedPositions_def c1_def)
      with vr have "set (fst sh) = set (ap @ ae)"
        unfolding sh_def by (intro set_shuffleArray) simp
      then have rng: "\<forall>a \<in> set (fst sh). a < length (heap (snd sh))"
        using ok hs set_alive_of [of c "playerUnits c"] set_alive_of [of c "enemyUnits c"]
        by (auto simp: ap_def ae_def owner_ok_def)
      have sub: "set ap \<subseteq> set (playerUnits (snd sh))" "set ae \<subseteq> set (enemyUnits (snd sh))"
        using fields set_alive_of by (simp_all add: ap_def ae_def)
      from inv_units_loop [OF wfs oks sub rng, of "Num (COMBAT_TICK_MS / 1000)"]
      have "units_ok (tick c)" "owner_ok (tick c)" by (simp_all add: t)
      moreover have "random_stream (tick c) = random_stream c"
        using ctrlD(7) [OF ctrl_units_loop, of "Num (COMBAT_TICK_MS / 1000)" ap ae "fst sh" "snd sh"]
          fields by (simp add: t)
      ultimately show ?thesis using vr by (simp add: combat_inv_def)
    qed
  qed
qed

lemma combat_inv_ticks: "combat_inv c \<Longrightarrow> combat_inv ((tick ^^ n) c)"
  by (induction n) (simp_all add: combat_inv_tick)

text \<open>A unit that is not alive keeps its record through every tick.\<close>

lemma frozen_units_loop:
  "\<not> isAlive (heap c ! x) \<Longrightarrow> heap (fold (process_unit dt ap ae) xs c) ! x = heap c ! x"
  by (rule frozen_fold) (simp_all add: frozen_process_unit)

lemma frozen_tick: "\<not> isAlive (heap c ! x) \<Longrightarrow> heap (tick c) ! x = heap c ! x"
proof (cases "isRunning c")
  case False
  then show ?thesis by (simp add: tick_stopped)
next
  case run: True
  assume dead: "\<not> isAlive (heap c ! x)"
  show ?thesis
  proof (cases "isOver c")
    case True
    with run show ?thesis by (simp add: tick_over)
  next
    case False
    show ?thesis
      unfolding tick_running [OF run False] Let_def
      using dead by (subst frozen_units_loop) simp_all
  qed
qed

lemma frozen_ticks: "\<not> isAlive (heap c ! x) \<Longrightarrow> heap ((tick ^^ n) c) ! x = heap c ! x"
proof (induction n)
  case 0
  then show ?case by simp
next
  case (Suc n)
  then have "\<not> isAlive (heap ((tick ^^ n) c) ! x)" by simp
  from frozen_tick [OF this] Suc show ?case by simp
qed

text \<open>What the preparation leaves in the store: no unit has a target, and the owner tags
  follow the rosters.\<close>

definition refs :: "combat \<Rightarrow> nat \<Rightarrow> nat option \<times> string option" where
  "refs c b = (target (heap c ! b), ownerId (heap c ! b))"

lemma refs_upd:
  "(\<And>u. target (f u) = target u \<and> ownerId (f u) = ownerId u) \<Longrightarrow> refs (upd a f c) = refs c"
  by (rule ext) (simp add: refs_def nth_upd)

lemma refs_log_event [simp]: "refs (log_event d c) = refs c"
  by (rule ext) (simp add: refs_def)

lemma refs_fold: "(\<And>x c. refs (f x c) = refs c) \<Longrightarrow> refs (fold f xs c) = refs c"
  by (induction xs arbitrary: c) simp_all

lemma refs_apply_bonus_entry:
  "target (apply_bonus_entry e u) = target u \<and> ownerId (apply_bonus_entry e u) = ownerId u"
  by (simp add: apply_bonus_entry_def Let_def split: option.splits)

lemma refs_applyBonusToUnit:
  "target (applyBonusToUnit bonus u) = target u \<and> ownerId (applyBonusToUnit bonus u) = ownerId u"
  unfolding applyBonusToUnit_def
  by (induction bonus arbitrary: u) (simp_all add: refs_apply_bonus_entry)

lemma refs_apply_trait [simp]: "refs (apply_trait units tc c) = refs c"
  by (simp add: apply_trait_def Let_def refs_fold refs_upd refs_applyBonusToUnit
        split: option.splits)

lemma refs_applyTraitBonuses [simp]: "refs (applyTraitBonuses units c) = refs c"
  by (simp add: applyTraitBonuses_def Let_def refs_fold refs_upd resetBuffs_def)

lemma refs_updateOccupiedPositions [simp]: "refs (updateOccupiedPositions c) = refs c"
  by (rule ext) (simp add: refs_def)

lemma clone_all_length: "clone_all n us = Inr (ks, m) \<Longrightarrow> length ks = length us"
  by (induction us arbitrary: n ks m) (auto split: sum.splits prod.splits)

lemma random_stream_upd [simp]: "random_stream (upd a f c) = random_stream c"
  by (simp add: upd_def)

lemma prepare_refs:
  assumes "prepare players enemies c = Inr c0"
  shows "random_stream c0 = random_stream c
       \<and> (\<forall>b < length players + length enemies.
            target (heap c0 ! b) = None
            \<and> ownerId (heap c0 ! b) = Some (if b < length players then ''player'' else ''enemy''))"
proof -
  from assms obtain ps n1 es n2 where
    ps: "clone_all (nextUnitId c) players = Inr (ps, n1)" and
    es: "clone_all n1 enemies = Inr (es, n2)"
    by (auto simp: prepare_def split: sum.splits prod.splits)
  have lens: "length ps = length players" "length es = length enemies"
    using clone_all_length ps es by auto
  define h where "h = map (\<lambda>u. u\<lparr> ownerId := Some ''player'' \<rparr>) ps
                     @ map (\<lambda>u. u\<lparr> ownerId := Some ''enemy'' \<rparr>) es"
  define c1 where "c1 = c\<lparr> heap := h, playerUnits := [0 ..< length ps],
      enemyUnits := [length ps ..< length ps + length es],
      nextUnitId := n2, isRunning := True,
      tickCount := 0, combatLog := [], result := new_CombatResult \<rparr>"
  define c2 where "c2 = initializeUnits c1"
  define c3 where "c3 = applyTraitBonuses (playerUnits c2) c2"
  define c4 where "c4 = applyTraitBonuses (enemyUnits c3) c3"
  define c5 where "c5 = updateOccupiedPositions c4"
  have c0: "c0 = log_event (CombatStart (length (playerUnits c5)) (length (enemyUnits c5))) c5"
    using assms ps es
    by (simp add: prepare_def Let_def c5_def c4_def c3_def c2_def c1_def h_def)
  have hlen: "length h = length players + length enemies"
    by (simp add: h_def lens)
  have roster: "playerUnits c1 @ enemyUnits c1 = [0 ..< length h]"
    by (simp add: c1_def hlen lens upt_add_eq_append [symmetric])
  have h2: "heap c2 ! b = resetForCombat (h ! b)" if "b < length h" for b
    unfolding c2_def initializeUnits_def roster
    using that by (simp add: nth_fold_upd c1_def)
  have own: "ownerId (h ! b) = Some (if b < length players then ''player'' else ''enemy'')"
    if "b < length h" for b
    using that hlen by (auto simp: h_def nth_append lens)
  have r: "refs c0 = refs c2"
    by (simp add: c0 c5_def c4_def c3_def)
  have "target (heap c0 ! b) = None
        \<and> ownerId (heap c0 ! b) = Some (if b < length players then ''player'' else ''enemy'')"
    if "b < length h" for b
    using fun_cong [OF r, of b] h2 [OF that] own [OF that]
    by (simp add: refs_def resetForCombat_def)
  moreover have "ctrl c0 = ctrl c1"
    by (simp add: c0 c5_def c4_def c3_def c2_def)
  then have "random_stream c0 = random_stream c"
    using ctrlD(7) [of c0 c1] by (simp add: c1_def)
  ultimately show ?thesis using hlen by simp
qed

lemma prepare_inv:
  assumes vp: "\<forall>u \<in> set players. valid_unit u" and ve: "\<forall>u \<in> set enemies. valid_unit u"
    and vr: "valid_random (random_stream c)"
    and prep: "prepare players enemies c = Inr c0"
  shows "combat_inv c0"
proof -
  from prepare_valid [OF vp ve, of c] prep have
    shape: "playerUnits c0 = [0 ..< length players]"
        "enemyUnits c0 = [length players ..< length players + length enemies]"
        "length (heap c0) = length players + length enemies"
        "\<forall>b < length (heap c0). isAlive (heap c0 ! b)"
    by auto
  note r = prepare_refs [OF prep]
  have "units_ok c0"
    using shape r by (auto simp: units_ok_def unit_ok_def dest: alive_hp_nonzero)
  moreover have "owner_ok c0"
    using shape r by (auto simp: owner_ok_def)
  ultimately show ?thesis using r vr by (simp add: combat_inv_def)
qed

text \<open>
  The states of a combat: the state after the preparation for rosters of valid units,
  the state after a tick, and the state after damage to a unit (as an ability deals it).
\<close>

inductive reachable :: "combat \<Rightarrow> bool" where
  start: "\<forall>u \<in> set players. valid_unit u \<Longrightarrow> \<forall>u \<in> set enemies. valid_unit u \<Longrightarrow>
            valid_random (random_stream c) \<Longrightarrow> prepare players enemies c = Inr c0 \<Longrightarrow>
            reachable c0"
| after_tick: "reachable c \<Longrightarrow> reachable (tick c)"
| after_damage: "reachable c \<Longrightarrow> reachable (snd (takeDamage_at d v t c))"

lemma random_stream_takeDamage_at [simp]:
  "random_stream (snd (takeDamage_at d v t c)) = random_stream c"
  using ctrlD(7) [OF ctrl_takeDamage_at] .

lemma reachable_inv: "reachable c \<Longrightarrow> combat_inv c"
proof (induction rule: reachable.induct)
  case (start players enemies c c0)
  then show ?case by (rule prepare_inv)
next
  case (after_tick c)
  from after_tick.IH show ?case by (rule combat_inv_tick)
next
  case (after_damage c d v t)
  have "owner_ok (snd (takeDamage_at d v t c)) = owner_ok c"
    by (rule owner_ok_cong) simp_all
  with after_damage.IH show ?case
    by (simp add: combat_inv_def units_ok_takeDamage_at)
qed

lemma reachable_ticks: "reachable c \<Longrightarrow> reachable ((tick ^^ n) c)"
  by (induction n) (simp_all add: after_tick)

lemma occupied_cells:
  "occupiedPositions (updateOccupiedPositions c)
     = {(x, y). \<exists>b \<in> set (playerUnits c @ enemyUnits c). isAlive (heap c ! b)
                  \<and> pos_x (heap c ! b) = Some x \<and> pos_y (heap c ! b) = Some y}"
proof -
  let ?f = "\<lambda>a. let u = heap c ! a
                in if isAlive u \<and> isOnBoard u then Some (the (pos_x u), the (pos_y u)) else None"
  have set_mf: "set (List.map_filter g xs) = {p. \<exists>b \<in> set xs. g b = Some p}"
    for g :: "nat \<Rightarrow> (int \<times> int) option" and xs
    by (induction xs) (auto split: option.splits)
  have cell: "?f b = Some (x, y) \<longleftrightarrow> isAlive (heap c ! b)
                \<and> pos_x (heap c ! b) = Some x \<and> pos_y (heap c ! b) = Some y" for b x y
    by (auto simp: isOnBoard_def Let_def)
  have "occupiedPositions (updateOccupiedPositions c)
          = {p. \<exists>b \<in> set (playerUnits c @ enemyUnits c). ?f b = Some p}"
    unfolding updateOccupiedPositions_def by (simp add: set_mf)
  also have "\<dots> = {(x, y). \<exists>b \<in> set (playerUnits c @ enemyUnits c). ?f b = Some (x, y)}"
    by auto
  finally show ?thesis unfolding cell .
qed

text \<open>
  C4. In every reachable state of a combat, a unit whose hit points are 0 is in the
  state DEAD and is not alive; no target search selects it; every cell that the
  rebuilt set of occupied positions holds is the cell of a living unit other than it
  (the set is rebuilt at the start of each tick); it is not among the units that a
  tick processes; and through all later ticks its record stays as it is (position,
  state, target, cooldown and mana never change) while its turn in the loop, an attack
  by it and a move by it do nothing.
\<close>

theorem dead_units_stay_out:
  assumes reach: "reachable s" and a: "a < length (heap s)"
    and hp: "currentHp (heap s ! a) = Num 0"
  shows "state (heap s ! a) = DEAD
       \<and> \<not> isAlive (heap s ! a)
       \<and> (\<forall>b es. b < length (heap s) \<longrightarrow> target (heap (findTarget b es s) ! b) \<noteq> Some a)
       \<and> (\<forall>x y. (x, y) \<in> occupiedPositions (updateOccupiedPositions s) \<longrightarrow>
             (\<exists>b \<in> set (playerUnits s @ enemyUnits s). b \<noteq> a \<and> isAlive (heap s ! b)
                 \<and> pos_x (heap s ! b) = Some x \<and> pos_y (heap s ! b) = Some y))
       \<and> a \<notin> set (alive_of s (playerUnits s) @ alive_of s (enemyUnits s))
       \<and> (\<forall>n. heap ((tick ^^ n) s) ! a = heap s ! a
              \<and> (\<forall>dt ap ae. process_unit dt ap ae a ((tick ^^ n) s) = (tick ^^ n) s)
              \<and> (\<forall>d. Combat_attack a d ((tick ^^ n) s) = (tick ^^ n) s)
              \<and> (\<forall>t. moveToward a t ((tick ^^ n) s) = (False, (tick ^^ n) s)))"
proof -
  from reachable_inv [OF reach] have ok: "units_ok s" by (simp add: combat_inv_def)
  from units_okD [OF ok a] hp have dead: "state (heap s ! a) = DEAD"
    by (simp add: unit_ok_def)
  have na: "\<not> isAlive (heap s ! a)"
    using hp by (simp add: isAlive_def)
  have tgt: "target (heap (findTarget b es s) ! b) \<noteq> Some a" if "b < length (heap s)" for b es
    using findTarget_selects [OF that, of es a] na by auto
  have occ: "\<exists>b \<in> set (playerUnits s @ enemyUnits s). b \<noteq> a \<and> isAlive (heap s ! b)
                 \<and> pos_x (heap s ! b) = Some x \<and> pos_y (heap s ! b) = Some y"
    if "(x, y) \<in> occupiedPositions (updateOccupiedPositions s)" for x y
    using that na unfolding occupied_cells by auto
  have out: "a \<notin> set (alive_of s (playerUnits s) @ alive_of s (enemyUnits s))"
    using na by (simp add: alive_of_def)
  have later: "heap ((tick ^^ n) s) ! a = heap s ! a
              \<and> (\<forall>dt ap ae. process_unit dt ap ae a ((tick ^^ n) s) = (tick ^^ n) s)
              \<and> (\<forall>d. Combat_attack a d ((tick ^^ n) s) = (tick ^^ n) s)
              \<and> (\<forall>t. moveToward a t ((tick ^^ n) s) = (False, (tick ^^ n) s))" for n
  proof -
    have same: "heap ((tick ^^ n) s) ! a = heap s ! a"
      by (rule frozen_ticks [OF na])
    then have "\<not> isAlive (heap ((tick ^^ n) s) ! a)" using na by simp
    then show ?thesis
      using same by (simp add: process_unit_def Combat_attack_def moveToward_def canAct_def Let_def)
  qed
  from dead na tgt occ out later show ?thesis by blast
qed

text \<open>
  The witness: the apprentice of the example combat takes 1000 magic damage, which
  leaves it with 0 hit points.
\<close>

definition example_after_damage :: combat where
  "example_after_damage = snd (takeDamage_at 1 (JNumber (Num 1000)) ''magic'' example_combat)"

theorem dead_units_stay_out_witness:
  "reachable example_after_damage
   \<and> currentHp (heap example_after_damage ! 1) = Num 0
   \<and> state (heap example_after_damage ! 1) = DEAD
   \<and> heap ((tick ^^ 3) example_after_damage) ! 1 = heap example_after_damage ! 1
   \<and> 1 \<notin> set (alive_of example_after_damage (playerUnits example_after_damage)
               @ alive_of example_after_damage (enemyUnits example_after_damage))"
proof -
  have v1: "\<forall>u \<in> set [example_squire]. valid_unit u" by code_simp
  have v2: "\<forall>u \<in> set [example_apprentice]. valid_unit u" by code_simp
  have vr: "valid_random (random_stream (new_Combat (\<lambda>n. 0) 1))"
    by (simp add: valid_random_def new_Combat_def)
  have "\<not> isl (prepare [example_squire] [example_apprentice] (new_Combat (\<lambda>n. 0) 1))"
    by code_simp
  then have p: "prepare [example_squire] [example_apprentice] (new_Combat (\<lambda>n. 0) 1)
                  = Inr example_combat"
    by (simp add: example_combat_def)
  have "reachable example_combat"
    by (rule reachable.start [OF v1 v2 vr p])
  then have r: "reachable example_after_damage"
    unfolding example_after_damage_def by (rule reachable.after_damage)
  have l: "1 < length (heap example_after_damage)" by code_simp
  have h: "currentHp (heap example_after_damage ! 1) = Num 0" by code_simp
  from dead_units_stay_out [OF r l h] r h show ?thesis by blast
qed

section \<open>Two single units in range of each other\<close>

text \<open>A roster of one unit reaches no trait threshold: its buffs are reset and stay zero.\<close>

lemma map_of_set_key: "map_of (set_key k v m) = (map_of m)(k \<mapsto> v)"
  by (induction m) (auto simp: fun_eq_iff)

lemma keys_set_key: "fst ` set (set_key k v m) = insert k (fst ` set m)"
proof (induction m)
  case Nil
  show ?case by simp
next
  case (Cons a m)
  obtain k' v' where a: "a = (k', v')" by (cases a)
  from Cons show ?case by (cases "k' = k") (simp_all add: a insert_commute)
qed

lemma distinct_set_key: "distinct (map fst m) \<Longrightarrow> distinct (map fst (set_key k v m))"
proof (induction m)
  case Nil
  show ?case by simp
next
  case (Cons a m)
  obtain k' v' where a: "a = (k', v')" by (cases a)
  from Cons show ?case by (cases "k' = k") (simp_all add: a keys_set_key)
qed

definition counts_single :: "nat \<Rightarrow> (string \<times> nat) list \<times> (nat \<times> string) set \<Rightarrow> bool" where
  "counts_single uid acc \<longleftrightarrow> distinct (map fst (fst acc))
     \<and> (\<forall>t n. map_of (fst acc) t = Some n \<longrightarrow> n = 0 \<or> n = 1 \<and> (uid, t) \<in> snd acc)"

lemma counts_single_step:
  "counts_single uid acc \<Longrightarrow> counts_single uid (count_trait uid t acc)"
  unfolding counts_single_def count_trait_def Let_def
  by (auto simp add: map_of_set_key distinct_set_key simp del: map_of_eq_Some_iff
        split: if_splits)

lemma counts_single_fold:
  "counts_single uid acc \<Longrightarrow> counts_single uid (fold (count_trait uid) ts acc)"
  by (induction ts arbitrary: acc) (simp_all add: counts_single_step)

lemma countTraits_single:
  assumes "(t, n) \<in> set (countTraits [u])"
  shows "n \<le> 1"
proof -
  have "counts_single (unit_id u) ([], {})"
    by (simp add: counts_single_def)
  then have "counts_single (unit_id u) (fold (count_trait (unit_id u)) (traits u) ([], {}))"
    by (rule counts_single_fold)
  then have cs: "counts_single (unit_id u)
      (fold (\<lambda>u acc. if \<not> isAlive u then acc else fold (count_trait (unit_id u)) (traits u) acc)
         [u] ([], {}))"
    by (simp add: counts_single_def)
  from cs have d: "distinct (map fst (countTraits [u]))"
    and b: "\<And>t n. map_of (countTraits [u]) t = Some n \<Longrightarrow> n \<le> 1"
    unfolding countTraits_def counts_single_def by fastforce+
  from assms d have "map_of (countTraits [u]) t = Some n" by simp
  then show ?thesis by (rule b)
qed

lemma find_Some_mem: "find P xs = Some x \<Longrightarrow> x \<in> set xs \<and> P x"
  by (induction xs) (auto split: if_splits)

lemma trait_thresholds:
  "map_of TRAITS t = Some (nm, bs) \<Longrightarrow> th \<in> fst ` set bs \<Longrightarrow> 2 \<le> th"
  unfolding TRAITS_def by (auto split: if_splits)

lemma getTraitBonus_threshold: "getTraitBonus t n = Some x \<Longrightarrow> 2 \<le> n"
proof -
  assume g: "getTraitBonus t n = Some x"
  then obtain nm bs where tr: "map_of TRAITS t = Some (nm, bs)"
    by (auto simp: getTraitBonus_def split: option.splits)
  with g obtain th where f: "find (\<lambda>threshold. n \<ge> threshold) (rev (sort (map fst bs))) = Some th"
    by (auto simp: getTraitBonus_def Let_def split: option.splits)
  then have "th \<in> set (rev (sort (map fst bs)))" "th \<le> n"
    by (auto dest: find_Some_mem)
  then have "th \<in> fst ` set bs" by simp
  from trait_thresholds [OF tr this] \<open>th \<le> n\<close> show ?thesis by simp
qed

lemma apply_trait_below: "snd tc \<le> 1 \<Longrightarrow> apply_trait units tc c = c"
  using getTraitBonus_threshold [of "fst tc" "snd tc"]
  by (cases "getTraitBonus (fst tc) (snd tc)") (auto simp: apply_trait_def)

lemma fold_apply_trait_below:
  "\<forall>tc \<in> set tcs. snd tc \<le> 1 \<Longrightarrow> fold (apply_trait units) tcs c = c"
  by (induction tcs) (simp_all add: apply_trait_below)

lemma applyTraitBonuses_single: "applyTraitBonuses [a] c = upd a resetBuffs c"
proof -
  have "\<forall>tc \<in> set (countTraits [heap (upd a resetBuffs c) ! a]). snd tc \<le> 1"
    using countTraits_single by auto
  then show ?thesis
    by (simp add: applyTraitBonuses_def Let_def fold_apply_trait_below)
qed


text \<open>
  The total damage dealt in a combat, read off its log: the sum of the damage of the
  entries for attacks and ability hits.
\<close>

fun entry_damage :: "log_data \<Rightarrow> jsnum" where
  "entry_damage (Attack attacker defender physical magic dealt crit hp killed) = dealt"
| "entry_damage (AbilityDamage caster ab tg d) = d"
| "entry_damage (AbilityChain caster ab tg i d) = d"
| "entry_damage (AbilityHit caster ab tg i d) = d"
| "entry_damage _ = Num 0"

definition total_damage_dealt :: "combat \<Rightarrow> jsnum" where
  "total_damage_dealt c = fold (\<lambda>e s. js_add s (entry_damage (data e))) (combatLog c) (Num 0)"

text \<open>A unit as the preparation leaves it when no trait is active.\<close>

definition fresh :: "unit \<Rightarrow> bool" where
  "fresh u \<longleftrightarrow> isAlive u \<and> target u = None \<and> attackCooldown u = Num 0
     \<and> buffs u = zero_buffs \<and> statusEffects u = clear_status
     \<and> currentMana u = Num 0 \<and> maxMana u = Num 100"

lemma js_add_NaN_right [simp]: "js_add x NaN = NaN"
  by (cases x) simp_all

lemma Unit_attack_method: "Unit_attack u = JFunction ''attack''"
  by (simp add: Unit_attack_def prototype_lookup_def Unit_class_body_def)

lemma updateStatusEffects_clear:
  "\<not> stunned (statusEffects u) \<Longrightarrow> \<not> slowed (statusEffects u) \<Longrightarrow> updateStatusEffects dt u = u"
  by (simp add: updateStatusEffects_def Let_def)

lemma takeDamage_function:
  assumes "isAlive u" "damageReduction (buffs u) = Num 0"
  shows "takeDamage (JFunction f) ''physical'' u = (NaN, u\<lparr> currentHp := NaN \<rparr>)"
  using assms
  by (simp add: takeDamage_def mitigate_def Let_def js_max_def js_sub_def gainMana_def
        isAlive_def js_gt_def)

lemma upd_same: "f (heap c ! a) = heap c ! a \<Longrightarrow> upd a f c = c"
  by (simp add: upd_def)

lemma combatLog_upd [simp]: "combatLog (upd a f c) = combatLog c"
  by (simp add: upd_def)

lemma tickCount_upd [simp]: "tickCount (upd a f c) = tickCount c"
  by (simp add: upd_def)

lemma strike_fresh:
  assumes "a < length (heap c)" "b < length (heap c)" "a \<noteq> b"
    and "buffs (heap c ! a) = zero_buffs"
    and "isAlive (heap c ! b)" "damageReduction (buffs (heap c ! b)) = Num 0"
  shows "strike a b c =
     log_event (Attack (name (heap c ! a)) (name (heap c ! b)) NaN (Num 0) NaN False NaN True)
       (upd a (gainMana MANA_PER_ATTACK) (upd b (\<lambda>u. u\<lparr> currentHp := NaN \<rparr>) c))"
proof -
  have td: "takeDamage_at b (JFunction ''attack'') ''physical'' c
              = (NaN, upd b (\<lambda>u. u\<lparr> currentHp := NaN \<rparr>) c)"
    using assms(5,6) by (simp add: takeDamage_at_def takeDamage_function upd_def)
  have nm: "name (gainMana m u) = name u" for m u
    by (simp add: gainMana_def Let_def)
  show ?thesis
    using assms(1-4)
    by (simp add: strike_def Let_def Unit_attack_method td zero_buffs_def js_gt_def nth_upd nm
          isAlive_def)
qed


lemma findTarget_single:
  assumes "a < length (heap c)" "isAlive (heap c ! a)" "isAlive (heap c ! b)"
    and "js_le (getDistanceTo (heap c ! a) (heap c ! b)) (Num r)"
  shows "findTarget a [b] c = upd a (\<lambda>u. u\<lparr> target := Some b \<rparr>) c"
proof -
  from assms(4) obtain d where d: "getDistanceTo (heap c ! a) (heap c ! b) = Num d"
    and "isOnBoard (heap c ! b)"
    by (auto simp: getDistanceTo_def isOnBoard_def split: option.splits)
  with assms(2,3) show ?thesis
    by (simp add: findTarget_def Let_def closest_step_def)
qed

text \<open>
  The turn of a fresh unit with one living enemy in its range: it takes the enemy as
  its target and attacks; the attack leaves the enemy with \<open>NaN\<close> hit points.
\<close>

lemma duel_turn:
  assumes a: "a < length (heap c)" and b: "b < length (heap c)" and ab: "a \<noteq> b"
    and fa: "fresh (heap c ! a)" and fb: "fresh (heap c ! b)"
    and rng: "js_le (getDistanceTo (heap c ! a) (heap c ! b)) (unit_range (heap c ! a))"
    and fin: "unit_range (heap c ! a) = Num r"
    and en: "(if ownerId (heap c ! a) = Some ''player'' then ae else ap) = [b]"
  shows "process_unit dt ap ae a c =
     upd a (\<lambda>u. u\<lparr> state := ATTACKING \<rparr>)
       (upd a (\<lambda>u. u\<lparr> attackCooldown := js_div (Num 1) (effectiveAttackSpeed u) \<rparr>)
          (log_event (Attack (name (heap c ! a)) (name (heap c ! b)) NaN (Num 0) NaN False NaN True)
             (upd a (gainMana MANA_PER_ATTACK)
                (upd b (\<lambda>u. u\<lparr> currentHp := NaN \<rparr>)
                   (upd a (\<lambda>u. u\<lparr> target := Some b \<rparr>) c)))))"
proof -
  define c2 where "c2 = upd a (\<lambda>u. u\<lparr> target := Some b \<rparr>) c"
  from fa have A: "isAlive (heap c ! a)" "target (heap c ! a) = None"
    "attackCooldown (heap c ! a) = Num 0" "buffs (heap c ! a) = zero_buffs"
    "statusEffects (heap c ! a) = clear_status" "currentMana (heap c ! a) = Num 0"
    "maxMana (heap c ! a) = Num 100"
    by (simp_all add: fresh_def)
  from fb have B: "isAlive (heap c ! b)" "buffs (heap c ! b) = zero_buffs"
    by (simp_all add: fresh_def)
  have c1: "upd a (updateStatusEffects dt) c = c"
    by (rule upd_same) (simp add: updateStatusEffects_clear A(5) clear_status_def)
  have can: "canAct (heap c ! a)"
    using A by (simp add: canAct_def clear_status_def)
  have acq: "acquire a [b] c = c2"
    using findTarget_single [OF a A(1) B(1)] rng fin A(2) by (simp add: acquire_def c2_def)
  have h2a: "heap c2 ! a = (heap c ! a)\<lparr> target := Some b \<rparr>"
    and h2b: "heap c2 ! b = heap c ! b"
    using a ab by (simp_all add: c2_def nth_upd)
  have cl: "cool dt a c2 = c2"
    by (simp add: cool_def h2a A(3))
  have can2: "canAct (heap c2 ! a)" "isAlive (heap c2 ! b)"
    using can B(1) by (simp_all add: h2a h2b canAct_def isAlive_def)
  have st: "strike a b c2 =
     log_event (Attack (name (heap c ! a)) (name (heap c ! b)) NaN (Num 0) NaN False NaN True)
       (upd a (gainMana MANA_PER_ATTACK) (upd b (\<lambda>u. u\<lparr> currentHp := NaN \<rparr>) c2))"
  proof -
    have "strike a b c2 =
       log_event (Attack (name (heap c2 ! a)) (name (heap c2 ! b)) NaN (Num 0) NaN False NaN True)
         (upd a (gainMana MANA_PER_ATTACK) (upd b (\<lambda>u. u\<lparr> currentHp := NaN \<rparr>) c2))"
    proof (rule strike_fresh)
      show "a < length (heap c2)" "b < length (heap c2)"
        using a b by (simp_all add: c2_def)
      show "a \<noteq> b" by (rule ab)
      show "buffs (heap c2 ! a) = zero_buffs" by (simp add: h2a A(4))
      show "isAlive (heap c2 ! b)" by (rule can2(2))
      show "damageReduction (buffs (heap c2 ! b)) = Num 0"
        by (simp add: h2b B(2) zero_buffs_def)
    qed
    then show ?thesis by (simp add: h2a h2b)
  qed
  have mana: "currentMana (heap (strike a b c2) ! a) = Num 10"
    "maxMana (heap (strike a b c2) ! a) = Num 100"
  proof -
    have "a < length (heap c2)" using a by (simp add: c2_def)
    then have "heap (strike a b c2) ! a = gainMana MANA_PER_ATTACK (heap c2 ! a)"
      using ab by (rule heap_strike_self [rotated])
    then show "currentMana (heap (strike a b c2) ! a) = Num 10"
      "maxMana (heap (strike a b c2) ! a) = Num 100"
      using A(1,4,6,7)
      by (simp_all add: h2a gainMana_def Let_def MANA_PER_ATTACK_def zero_buffs_def isAlive_def)
  qed
  have att: "Combat_attack a b c2 = strike a b c2"
    using can2 by (simp add: Combat_attack_strike mana)
  have dist: "getDistanceTo ((heap c ! a)\<lparr> target := Some b \<rparr>) x = getDistanceTo (heap c ! a) x" for x
    by (simp add: getDistanceTo_def)
  have "act a b c2 =
     upd a (\<lambda>u. u\<lparr> state := ATTACKING \<rparr>)
       (upd a (\<lambda>u. u\<lparr> attackCooldown := js_div (Num 1) (effectiveAttackSpeed u) \<rparr>)
          (strike a b c2))"
    using rng by (simp add: act_def Let_def dist getEffectiveRange_def h2a h2b A(3) att)
  moreover have "process_unit dt ap ae a c = act a b c2"
    using A(1) can en by (simp add: process_unit_stages c1 Let_def acq h2a cl)
  ultimately have "process_unit dt ap ae a c =
     upd a (\<lambda>u. u\<lparr> state := ATTACKING \<rparr>)
       (upd a (\<lambda>u. u\<lparr> attackCooldown := js_div (Num 1) (effectiveAttackSpeed u) \<rparr>)
          (strike a b c2))"
    by simp
  then show ?thesis unfolding st unfolding c2_def .
qed


text \<open>
  Two fresh units, one in each roster, within range of each other, in a running combat.
\<close>

definition duel :: "combat \<Rightarrow> bool" where
  "duel c \<longleftrightarrow> isRunning c \<and> valid_random (random_stream c)
     \<and> length (heap c) = 2 \<and> playerUnits c = [0] \<and> enemyUnits c = [1]
     \<and> fresh (heap c ! 0) \<and> fresh (heap c ! 1)
     \<and> ownerId (heap c ! 0) = Some ''player'' \<and> ownerId (heap c ! 1) = Some ''enemy''
     \<and> (\<exists>r. unit_range (heap c ! 0) = Num r) \<and> (\<exists>r. unit_range (heap c ! 1) = Num r)
     \<and> js_le (getDistanceTo (heap c ! 0) (heap c ! 1)) (unit_range (heap c ! 0))
     \<and> js_le (getDistanceTo (heap c ! 1) (heap c ! 0)) (unit_range (heap c ! 1))"

lemma combatLog_shuffle_from [simp]: "combatLog (snd (shuffle_from i xs c)) = combatLog c"
  by (induction i arbitrary: xs c) (simp_all add: case_prod_beta Let_def Math_random_def)

lemma combatLog_shuffleArray [simp]: "combatLog (snd (shuffleArray xs c)) = combatLog c"
  by (simp add: shuffleArray_def)

lemma combatLog_updateOccupiedPositions [simp]:
  "combatLog (updateOccupiedPositions c) = combatLog c"
  by (simp add: updateOccupiedPositions_def)

lemma shuffle_pair:
  assumes "valid_random (random_stream c)"
  shows "fst (shuffleArray [x, y] c) = [x, y] \<or> fst (shuffleArray [x, y] c) = [y, x]"
proof -
  let ?j = "nat \<lfloor>fst (Math_random c) * (real (Suc 0) + 1)\<rfloor>"
  have "0 \<le> fst (Math_random c)" "fst (Math_random c) < 1"
    using assms by (simp_all add: valid_random_def Math_random_def)
  then have "?j \<le> Suc 0" by (rule random_index)
  then have "?j = 0 \<or> ?j = 1" by linarith
  then show ?thesis
    by (auto simp: shuffleArray_def case_prod_beta Let_def)
qed

text \<open>
  One round of the two units, whoever goes first: the first attacks and the second,
  left with \<open>NaN\<close> hit points, does not get its turn.
\<close>

lemma duel_round:
  assumes a: "a < length (heap c)" and b: "b < length (heap c)" and ab: "a \<noteq> b"
    and fa: "fresh (heap c ! a)" and fb: "fresh (heap c ! b)"
    and rng: "js_le (getDistanceTo (heap c ! a) (heap c ! b)) (unit_range (heap c ! a))"
    and fin: "unit_range (heap c ! a) = Num r"
    and en: "(if ownerId (heap c ! a) = Some ''player'' then ae else ap) = [b]"
  shows "combatLog (fold (process_unit dt ap ae) [a, b] c) = combatLog c @
           [\<lparr> tick_no = tickCount c,
              data = Attack (name (heap c ! a)) (name (heap c ! b)) NaN (Num 0) NaN False NaN True \<rparr>]"
    and "\<not> isAlive (heap (fold (process_unit dt ap ae) [a, b] c) ! b)"
proof -
  define c' where "c' = process_unit dt ap ae a c"
  note turn = duel_turn [OF a b ab fa fb rng fin en, of dt, folded c'_def]
  have hb: "heap c' ! b = (heap c ! b)\<lparr> currentHp := NaN \<rparr>"
    using a b ab by (simp add: turn nth_upd)
  then have dead: "\<not> isAlive (heap c' ! b)"
    by (simp add: isAlive_def js_gt_def)
  then have "process_unit dt ap ae b c' = c'"
    by (simp add: process_unit_def)
  then have f: "fold (process_unit dt ap ae) [a, b] c = c'"
    by (simp add: c'_def)
  show "\<not> isAlive (heap (fold (process_unit dt ap ae) [a, b] c) ! b)"
    unfolding f by (rule dead)
  have "combatLog c' = combatLog c @
           [\<lparr> tick_no = tickCount c,
              data = Attack (name (heap c ! a)) (name (heap c ! b)) NaN (Num 0) NaN False NaN True \<rparr>]"
    by (simp add: turn log_event_def)
  then show "combatLog (fold (process_unit dt ap ae) [a, b] c) = combatLog c @
           [\<lparr> tick_no = tickCount c,
              data = Attack (name (heap c ! a)) (name (heap c ! b)) NaN (Num 0) NaN False NaN True \<rparr>]"
    by (simp only: f)
qed

lemma duel_tick:
  assumes "duel c"
  shows "isRunning (tick c)" and "tickCount (tick c) = Suc (tickCount c)"
    and "isOver (tick c)"
    and "\<exists>e. combatLog (tick c) = combatLog c @ [e] \<and> entry_damage (data e) = NaN"
proof -
  from assms have run: "isRunning c" and vr: "valid_random (random_stream c)"
    and len: "length (heap c) = 2" and pu: "playerUnits c = [0]" and eu: "enemyUnits c = [1]"
    and f0: "fresh (heap c ! 0)" and f1: "fresh (heap c ! 1)"
    and o0: "ownerId (heap c ! 0) = Some ''player''"
    and o1: "ownerId (heap c ! 1) = Some ''enemy''"
    and r01: "js_le (getDistanceTo (heap c ! 0) (heap c ! 1)) (unit_range (heap c ! 0))"
    and r10: "js_le (getDistanceTo (heap c ! 1) (heap c ! 0)) (unit_range (heap c ! 1))"
    by (simp_all add: duel_def)
  from assms obtain r0 r1 where fin0: "unit_range (heap c ! 0) = Num r0"
    and fin1: "unit_range (heap c ! 1) = Num r1"
    by (auto simp: duel_def)
  have al: "isAlive (heap c ! 0)" "isAlive (heap c ! 1)"
    using f0 f1 by (simp_all add: fresh_def)
  then have ap: "alive_of c (playerUnits c) = [0]" and ae: "alive_of c (enemyUnits c) = [1]"
    by (simp_all add: alive_of_def pu eu)
  then have nov: "\<not> isOver c" by (simp add: isOver_def)
  define c1 where "c1 = updateOccupiedPositions (c\<lparr> tickCount := Suc (tickCount c) \<rparr>)"
  define sh where "sh = shuffleArray [0, 1] c1"
  let ?dt = "Num (COMBAT_TICK_MS / 1000)"
  have t: "tick c = fold (process_unit ?dt [0] [1]) (fst sh) (snd sh)"
    using tick_running [OF run nov] by (simp add: Let_def ap ae sh_def c1_def)
  have h: "heap (snd sh) = heap c" and l: "combatLog (snd sh) = combatLog c"
    and tc: "tickCount (snd sh) = Suc (tickCount c)"
    using ctrlD(2) [OF ctrl_shuffleArray, of "[0, 1]" c1]
    by (simp_all add: sh_def c1_def updateOccupiedPositions_def)
  have "valid_random (random_stream c1)"
    using vr by (simp add: c1_def updateOccupiedPositions_def)
  then have "fst sh = [0, 1] \<or> fst sh = [1, 0]"
    unfolding sh_def by (rule shuffle_pair)
  then have "(\<exists>e. combatLog (tick c) = combatLog c @ [e] \<and> entry_damage (data e) = NaN)
     \<and> (\<not> isAlive (heap (tick c) ! 0) \<or> \<not> isAlive (heap (tick c) ! 1))"
  proof
    assume o: "fst sh = [0, 1]"
    have "combatLog (fold (process_unit ?dt [0] [1]) [0, 1] (snd sh)) = combatLog (snd sh) @
           [\<lparr> tick_no = tickCount (snd sh),
              data = Attack (name (heap (snd sh) ! 0)) (name (heap (snd sh) ! 1))
                       NaN (Num 0) NaN False NaN True \<rparr>]"
      and "\<not> isAlive (heap (fold (process_unit ?dt [0] [1]) [0, 1] (snd sh)) ! 1)"
      using duel_round [where a = 0 and b = 1 and c = "snd sh" and r = r0 and ae = "[1]"
          and ap = "[0]" and dt = ?dt] f0 f1 r01 fin0 o0
      by (simp_all add: h len)
    then show ?thesis by (simp add: t o l)
  next
    assume o: "fst sh = [1, 0]"
    have "combatLog (fold (process_unit ?dt [0] [1]) [1, 0] (snd sh)) = combatLog (snd sh) @
           [\<lparr> tick_no = tickCount (snd sh),
              data = Attack (name (heap (snd sh) ! 1)) (name (heap (snd sh) ! 0))
                       NaN (Num 0) NaN False NaN True \<rparr>]"
      and "\<not> isAlive (heap (fold (process_unit ?dt [0] [1]) [1, 0] (snd sh)) ! 0)"
      using duel_round [where a = 1 and b = 0 and c = "snd sh" and r = r1 and ae = "[1]"
          and ap = "[0]" and dt = ?dt] f0 f1 r10 fin1 o1
      by (simp_all add: h len)
    then show ?thesis by (simp add: t o l)
  qed
  then have lg: "\<exists>e. combatLog (tick c) = combatLog c @ [e] \<and> entry_damage (data e) = NaN"
    and dead: "\<not> isAlive (heap (tick c) ! 0) \<or> \<not> isAlive (heap (tick c) ! 1)"
    by blast+
  from lg show "\<exists>e. combatLog (tick c) = combatLog c @ [e] \<and> entry_damage (data e) = NaN" .
  from ctrlD [OF ctrl_tick_running [OF run nov]]
  have ct: "isRunning (tick c)" "tickCount (tick c) = Suc (tickCount c)"
    and pe: "playerUnits (tick c) = [0]" "enemyUnits (tick c) = [1]"
    using run pu eu by simp_all
  from ct show "isRunning (tick c)" and "tickCount (tick c) = Suc (tickCount c)" .
  show "isOver (tick c)"
    using dead by (auto simp: isOver_def alive_of_def pe)
qed


text \<open>
  The range of a unit in a combat is the range of its template: the clone is built from
  the template and nothing changes its range afterwards.
\<close>

definition in_range_of :: "unit \<Rightarrow> unit \<Rightarrow> bool" where
  "in_range_of u other \<longleftrightarrow>
     (case map_of UNITS (templateId u) of
        None \<Rightarrow> False
      | Some t \<Rightarrow> js_le (getDistanceTo u other) (Num (t_range t)))"

lemma clone_fields:
  assumes "clone n u = Inr k"
  shows "target k = None" "attackCooldown k = Num 0" "maxMana k = Num 100"
    "pos_x k = pos_x u" "pos_y k = pos_y u"
    "\<exists>t. map_of UNITS (templateId u) = Some t \<and> unit_range k = Num (t_range t)"
  using assms
  by (auto simp: clone_def new_Unit_def MAX_MANA_def split: option.splits sum.splits)

lemma fresh_prepared:
  assumes "clone n u = Inr k" "js_gt (effectiveMaxHp k) (Num 0)"
  shows "fresh (resetBuffs (resetForCombat (k\<lparr> ownerId := w \<rparr>)))"
  using assms clone_fields(1-3) [OF assms(1)]
  by (simp add: fresh_def resetBuffs_def resetForCombat_def isAlive_def effectiveMaxHp_def)

lemma prepare_duel:
  assumes vp: "valid_unit p" and ve: "valid_unit e"
    and rp: "in_range_of p e" and re: "in_range_of e p"
    and vr: "valid_random (random_stream c)"
  shows "\<exists>c0. prepare [p] [e] c = Inr c0 \<and> duel c0 \<and> tickCount c0 = 0
           \<and> combatLog c0 = [\<lparr> tick_no = 0, data = CombatStart 1 1 \<rparr>]"
proof -
  from clone_valid [OF vp] obtain kp where
    kp: "clone (nextUnitId c) p = Inr kp" "js_gt (effectiveMaxHp kp) (Num 0)"
    by blast
  from clone_valid [OF ve] obtain ke where
    ke: "clone (Suc (nextUnitId c)) e = Inr ke" "js_gt (effectiveMaxHp ke) (Num 0)"
    by blast
  define P where "P = resetBuffs (resetForCombat (kp\<lparr> ownerId := Some ''player'' \<rparr>))"
  define E where "E = resetBuffs (resetForCombat (ke\<lparr> ownerId := Some ''enemy'' \<rparr>))"
  define c0 where "c0 = projr (prepare [p] [e] c)"
  have prep: "prepare [p] [e] c = Inr c0"
    by (simp add: c0_def prepare_def kp(1) ke(1) Let_def)
  have hp: "heap c0 = [P, E]"
    by (simp add: c0_def prepare_def kp(1) ke(1) Let_def initializeUnits_def
          applyTraitBonuses_single upd_def P_def E_def updateOccupiedPositions_def)
  have fields: "isRunning c0" "tickCount c0 = 0" "playerUnits c0 = [0]" "enemyUnits c0 = [1]"
    "random_stream c0 = random_stream c"
    "combatLog c0 = [\<lparr> tick_no = 0, data = CombatStart 1 1 \<rparr>]"
    by (simp_all add: c0_def prepare_def kp(1) ke(1) Let_def initializeUnits_def
          applyTraitBonuses_single upd_def updateOccupiedPositions_def log_event_def)
  have fr: "fresh P" "fresh E"
    unfolding P_def E_def using kp ke by (simp_all add: fresh_prepared)
  have ow: "ownerId P = Some ''player''" "ownerId E = Some ''enemy''"
    by (simp_all add: P_def E_def resetBuffs_def resetForCombat_def)
  have pos: "pos_x P = pos_x p" "pos_y P = pos_y p" "pos_x E = pos_x e" "pos_y E = pos_y e"
    using clone_fields(4,5) [OF kp(1)] clone_fields(4,5) [OF ke(1)]
    by (simp_all add: P_def E_def resetBuffs_def resetForCombat_def)
  then have dist: "getDistanceTo P E = getDistanceTo p e" "getDistanceTo E P = getDistanceTo e p"
    by (simp_all add: getDistanceTo_def)
  from clone_fields(6) [OF kp(1)] obtain tp where
    tp: "map_of UNITS (templateId p) = Some tp" "unit_range P = Num (t_range tp)"
    by (auto simp: P_def resetBuffs_def resetForCombat_def)
  from clone_fields(6) [OF ke(1)] obtain te where
    te: "map_of UNITS (templateId e) = Some te" "unit_range E = Num (t_range te)"
    by (auto simp: E_def resetBuffs_def resetForCombat_def)
  have "duel c0"
    using fields fr ow vr rp re tp te
    by (simp add: duel_def hp dist in_range_of_def)
  with prep fields show ?thesis by blast
qed


lemma total_damage_dealt_snoc:
  "combatLog c' = combatLog c @ [x]
     \<Longrightarrow> total_damage_dealt c' = js_add (total_damage_dealt c) (entry_damage (data x))"
  by (simp add: total_damage_dealt_def)

lemma endCombat_report:
  "totalTicks (result (endCombat w d c)) = tickCount c"
  "combatLog (endCombat w d c) = combatLog c @
     [\<lparr> tick_no = tickCount c,
        data = CombatEnd w d (tickCount c) (length (alive_of c (playerUnits c)))
                 (length (alive_of c (enemyUnits c))) \<rparr>]"
  by (simp_all add: endCombat_def stop_def log_event_def Let_def)

lemma total_damage_dealt_endCombat [simp]:
  "total_damage_dealt (endCombat w d c) = js_add (total_damage_dealt c) (Num 0)"
  by (simp add: total_damage_dealt_def endCombat_report)

lemma totalTicks_determinWinner [simp]:
  "totalTicks (result (determinWinner c)) = tickCount c"
  by (simp add: determinWinner_def Let_def endCombat_report)

lemma total_damage_dealt_determinWinner [simp]:
  "total_damage_dealt (determinWinner c) = js_add (total_damage_dealt c) (Num 0)"
  by (simp add: determinWinner_def Let_def)

lemma total_damage_dealt_tickCount [simp]:
  "total_damage_dealt (c\<lparr> tickCount := n \<rparr>) = total_damage_dealt c"
  by (simp add: total_damage_dealt_def)

text \<open>
  The run of such a pair, for every random stream: the first tick holds the one attack,
  the second finds a side without a living unit.
\<close>

lemma runSync_duel:
  assumes vp: "valid_unit p" and ve: "valid_unit e"
    and rp: "in_range_of p e" and re: "in_range_of e p"
    and vr: "valid_random (random_stream c)"
  shows "\<exists>k. runSync [p] [e] maxTicks c = Inr k
           \<and> totalTicks (result k) = min maxTicks 2
           \<and> total_damage_dealt k = (if maxTicks = 0 then Num 0 else NaN)"
proof -
  from prepare_duel [OF assms] obtain c0 where
    prep: "prepare [p] [e] c = Inr c0" and d: "duel c0" and t0: "tickCount c0 = 0"
    and l0: "combatLog c0 = [\<lparr> tick_no = 0, data = CombatStart 1 1 \<rparr>]"
    by blast
  from d have run0: "isRunning c0" by (simp add: duel_def)
  have dmg0: "total_damage_dealt c0 = Num 0"
    by (simp add: total_damage_dealt_def l0)
  note tk = duel_tick [OF d]
  from tk(4) obtain x where "combatLog (tick c0) = combatLog c0 @ [x]"
    "entry_damage (data x) = NaN"
    by blast
  then have dmg1: "total_damage_dealt (tick c0) = NaN"
    by (simp add: total_damage_dealt_snoc [of "tick c0" c0 x])
  have t1: "tickCount (tick c0) = 1"
    using tk(2) t0 by simp
  consider "maxTicks = 0" | "maxTicks = 1" | "2 \<le> maxTicks" by linarith
  then show ?thesis
  proof cases
    case 1
    have "run_loop maxTicks c0 = c0"
      using 1 by (subst run_loop.simps) simp
    then show ?thesis
      using prep run0 t0 1 dmg0 by (simp add: runSync_def Let_def endCombat_report)
  next
    case 2
    have "run_loop maxTicks c0 = run_loop maxTicks (tick c0)"
      using 2 run0 t0 by (subst run_loop.simps) simp
    also have "\<dots> = tick c0"
      using 2 t1 by (subst run_loop.simps) simp
    finally show ?thesis
      using prep tk(1) t1 2 dmg1 by (simp add: runSync_def Let_def endCombat_report)
  next
    case 3
    have "run_loop maxTicks c0 = run_loop maxTicks (tick c0)"
      using 3 run0 t0 by (subst run_loop.simps) simp
    also have "\<dots> = determinWinner ((tick c0)\<lparr> tickCount := Suc (tickCount (tick c0)) \<rparr>)"
      using tk(1,3) t1 3 by (intro run_loop_over) simp_all
    finally show ?thesis
      using prep t1 3 dmg1 by (simp add: runSync_def Let_def)
  qed
qed




text \<open>
  What the two runs of the example agree on, and what they differ in: two ticks and a
  total of \<open>NaN\<close> in both (the one attack passes on the function object that
  \<open>attacker.attack\<close> evaluates to), while the winner is the unit that the shuffle puts
  first.
\<close>

lemma duel_winner_follows_shuffle:
  "map (\<lambda>rs. let k = projr (runSync [example_squire] [example_apprentice] 1000 (new_Combat rs 1))
              in (totalTicks (result k), total_damage_dealt k, winner (result k),
                  damageToPlayer (result k), damageToEnemy (result k)))
     [\<lambda>n. 0, \<lambda>n. 9 / 10]
   = [(2, NaN, Some ''enemy'', 3, 0), (2, NaN, Some ''player'', 0, 3)]"
  by code_simp

end
